theory Spec2Isabelle
  imports Main "HOL-Library.AList"
begin

unbundle bit_operations_syntax

section \<open>Python values\<close>

text \<open>
  The ledger code works on Python dictionaries that are serialised with
  \<^verbatim>\<open>json.dumps(..., sort_keys=True)\<close> and hashed with \<^verbatim>\<open>hashlib.sha256\<close>.
  A dictionary is an association list in insertion order (keys are unique in Python, and
  every operation below keeps them so); a float is carried as the text that \<^verbatim>\<open>repr\<close>
  gives it, which is what \<^verbatim>\<open>json.dumps\<close> writes and the only thing the ledger does with a
  timestamp. Strings are over the code points below 256.
\<close>

datatype json =
    JNull
  | JBool bool
  | JInt int
  | JFloat string
  | JStr string
  | JList "json list"
  | JDict "(string \<times> json) list"

type_synonym pydict = "(string \<times> json) list"

text \<open>\<^verbatim>\<open>d.get(k)\<close>: the stored value, or \<^verbatim>\<open>None\<close> when the key is missing.\<close>

definition py_get :: "pydict \<Rightarrow> string \<Rightarrow> json" where
  "py_get d k = (case map_of d k of None \<Rightarrow> JNull | Some v \<Rightarrow> v)"

text \<open>\<^verbatim>\<open>s.startswith(p)\<close>\<close>

definition startswith :: "string \<Rightarrow> string \<Rightarrow> bool" where
  "startswith s p = (take (length p) s = p)"

subsection \<open>\<^verbatim>\<open>json.dumps(obj, sort_keys=True)\<close>\<close>

definition hexdigit :: "int \<Rightarrow> char" where
  "hexdigit n = ''0123456789abcdef'' ! nat n"

function dec_digits :: "int \<Rightarrow> string" where
  "dec_digits n = (if n < 10 then [hexdigit n] else dec_digits (n div 10) @ [hexdigit (n mod 10)])"
  by pat_completeness auto
termination
  by (relation "measure nat") auto

declare dec_digits.simps [simp del]

definition str_int :: "int \<Rightarrow> string" where
  "str_int n = (if n < 0 then CHR ''-'' # dec_digits (- n) else dec_digits n)"

text \<open>
  The default \<^verbatim>\<open>ensure_ascii=True\<close> encoder: the quote and the backslash are escaped,
  the usual control characters have short escapes, and everything else outside
  \<^verbatim>\<open>' '..'~'\<close> is written \<^verbatim>\<open>\u00XX\<close>.
\<close>

definition escape_char :: "char \<Rightarrow> string" where
  "escape_char c =
     (let n = (of_char c :: int) in
      if n = 34 then [CHR 0x5C, CHR 0x22]
      else if n = 92 then [CHR 0x5C, CHR 0x5C]
      else if n = 10 then [CHR 0x5C, CHR ''n'']
      else if n = 13 then [CHR 0x5C, CHR ''r'']
      else if n = 9 then [CHR 0x5C, CHR ''t'']
      else if n = 8 then [CHR 0x5C, CHR ''b'']
      else if n = 12 then [CHR 0x5C, CHR ''f'']
      else if n < 32 \<or> 126 < n
        then [CHR 0x5C, CHR ''u'', CHR ''0'', CHR ''0'', hexdigit (n div 16), hexdigit (n mod 16)]
      else [c])"

definition json_str :: "string \<Rightarrow> string" where
  "json_str s = CHR 0x22 # concat (map escape_char s) @ [CHR 0x22]"

fun join_comma :: "string list \<Rightarrow> string" where
  "join_comma [] = []"
| "join_comma [x] = x"
| "join_comma (x # y # r) = x @ '', '' @ join_comma (y # r)"

text \<open>Python compares strings by code point; \<^verbatim>\<open>sorted\<close> is stable.\<close>

fun str_less :: "string \<Rightarrow> string \<Rightarrow> bool" where
  "str_less [] [] = False"
| "str_less [] (y # ys) = True"
| "str_less (x # xs) [] = False"
| "str_less (x # xs) (y # ys) =
     ((of_char x :: int) < of_char y \<or> (x = y \<and> str_less xs ys))"

fun insert_item :: "string \<times> 'a \<Rightarrow> (string \<times> 'a) list \<Rightarrow> (string \<times> 'a) list" where
  "insert_item kv [] = [kv]"
| "insert_item kv (x # xs) =
     (if str_less (fst x) (fst kv) then x # insert_item kv xs else kv # x # xs)"

definition sorted_items :: "(string \<times> 'a) list \<Rightarrow> (string \<times> 'a) list" where
  "sorted_items kvs = foldr insert_item kvs []"

definition json_item :: "string \<times> string \<Rightarrow> string" where
  "json_item kv = json_str (fst kv) @ '': '' @ snd kv"

fun dumps :: "json \<Rightarrow> string" where
  "dumps JNull = ''null''"
| "dumps (JBool b) = (if b then ''true'' else ''false'')"
| "dumps (JInt n) = str_int n"
| "dumps (JFloat r) = r"
| "dumps (JStr s) = json_str s"
| "dumps (JList xs) = ''['' @ join_comma (map dumps xs) @ '']''"
| "dumps (JDict kvs) =
     ''{'' @ join_comma (map json_item (sorted_items (map (\<lambda>(k, v). (k, dumps v)) kvs))) @ ''}''"

section \<open>SHA-256\<close>

text \<open>
  \<^verbatim>\<open>hashlib.sha256(data).hexdigest()\<close>, after FIPS 180-4. A 32-bit word is an
  \<^typ>\<open>int\<close> below \<open>2 ^ 32\<close>; sums are cut back to 32 bits with a mask. A byte string is
  the list of its characters (the serialised text is ASCII, so \<^verbatim>\<open>.encode()\<close> keeps every
  code). The round constants and the initial state are written in decimal.
\<close>

definition K256 :: "int list" where
  "K256 = [
   1116352408, 1899447441, 3049323471, 3921009573, 961987163, 1508970993, 2453635748, 2870763221,
   3624381080, 310598401, 607225278, 1426881987, 1925078388, 2162078206, 2614888103, 3248222580,
   3835390401, 4022224774, 264347078, 604807628, 770255983, 1249150122, 1555081692, 1996064986,
   2554220882, 2821834349, 2952996808, 3210313671, 3336571891, 3584528711, 113926993, 338241895,
   666307205, 773529912, 1294757372, 1396182291, 1695183700, 1986661051, 2177026350, 2456956037,
   2730485921, 2820302411, 3259730800, 3345764771, 3516065817, 3600352804, 4094571909, 275423344,
   430227734, 506948616, 659060556, 883997877, 958139571, 1322822218, 1537002063, 1747873779,
   1955562222, 2024104815, 2227730452, 2361852424, 2428436474, 2756734187, 3204031479, 3329325298]"

type_synonym sha_state = "int \<times> int \<times> int \<times> int \<times> int \<times> int \<times> int \<times> int"

definition H256 :: sha_state where
  "H256 = (1779033703, 3144134277, 1013904242, 2773480762, 1359893119, 2600822924, 528734635, 1541459225)"

definition mask32 :: "int \<Rightarrow> int" where
  "mask32 x = x AND 4294967295"

text \<open>\<open>rotr n m x\<close> rotates right by \<open>n\<close>, where \<open>m = 32 - n\<close>.\<close>

definition rotr :: "nat \<Rightarrow> nat \<Rightarrow> int \<Rightarrow> int" where
  "rotr n m x = drop_bit n x OR mask32 (push_bit m x)"

definition Ch :: "int \<Rightarrow> int \<Rightarrow> int \<Rightarrow> int" where
  "Ch x y z = (x AND y) XOR ((4294967295 - x) AND z)"

definition Maj :: "int \<Rightarrow> int \<Rightarrow> int \<Rightarrow> int" where
  "Maj x y z = (x AND y) XOR (x AND z) XOR (y AND z)"

definition bsig0 :: "int \<Rightarrow> int" where
  "bsig0 x = rotr 2 30 x XOR rotr 13 19 x XOR rotr 22 10 x"

definition bsig1 :: "int \<Rightarrow> int" where
  "bsig1 x = rotr 6 26 x XOR rotr 11 21 x XOR rotr 25 7 x"

definition ssig0 :: "int \<Rightarrow> int" where
  "ssig0 x = rotr 7 25 x XOR rotr 18 14 x XOR drop_bit 3 x"

definition ssig1 :: "int \<Rightarrow> int" where
  "ssig1 x = rotr 17 15 x XOR rotr 19 13 x XOR drop_bit 10 x"

text \<open>The message schedule, newest word first: \<open>rw ! i\<close> is the word \<open>i + 1\<close> places back.\<close>

definition sched_word :: "int list \<Rightarrow> int" where
  "sched_word rw = mask32 (ssig1 (rw ! 1) + rw ! 6 + ssig0 (rw ! 14) + rw ! 15)"

primrec extend :: "nat \<Rightarrow> int list \<Rightarrow> int list" where
  "extend 0 rw = rw"
| "extend (Suc n) rw = extend n (sched_word rw # rw)"

definition T1 :: "int \<Rightarrow> int \<Rightarrow> int \<Rightarrow> int \<Rightarrow> int \<Rightarrow> int \<Rightarrow> int" where
  "T1 e f g h k w = mask32 (h + bsig1 e + Ch e f g + k + w)"

definition T2 :: "int \<Rightarrow> int \<Rightarrow> int \<Rightarrow> int" where
  "T2 a b c = mask32 (bsig0 a + Maj a b c)"

fun shift_in :: "sha_state \<Rightarrow> int \<Rightarrow> int \<Rightarrow> sha_state" where
  "shift_in (a, b, c, d, e, f, g, h) t1 t2 = (mask32 (t1 + t2), a, b, c, mask32 (d + t1), e, f, g)"

fun round_step :: "sha_state \<Rightarrow> int \<times> int \<Rightarrow> sha_state" where
  "round_step (a, b, c, d, e, f, g, h) (k, w) =
     shift_in (a, b, c, d, e, f, g, h) (T1 e f g h k w) (T2 a b c)"

fun add_state :: "sha_state \<Rightarrow> sha_state \<Rightarrow> sha_state" where
  "add_state (a, b, c, d, e, f, g, h) (a', b', c', d', e', f', g', h') =
     (mask32 (a + a'), mask32 (b + b'), mask32 (c + c'), mask32 (d + d'),
      mask32 (e + e'), mask32 (f + f'), mask32 (g + g'), mask32 (h + h'))"

definition compress :: "sha_state \<Rightarrow> int list \<Rightarrow> sha_state" where
  "compress hs blk = add_state hs (foldl round_step hs (zip K256 (rev (extend 48 (rev blk)))))"

fun be_words :: "int list \<Rightarrow> int list" where
  "be_words (a # b # c # d # r) = (((a * 256 + b) * 256 + c) * 256 + d) # be_words r"
| "be_words _ = []"

function blocks16 :: "int list \<Rightarrow> int list list" where
  "blocks16 ws = (if ws = [] then [] else take 16 ws # blocks16 (drop 16 ws))"
  by pat_completeness auto
termination
  by (relation "measure length") auto

declare blocks16.simps [simp del]

definition be64 :: "int \<Rightarrow> int list" where
  "be64 n = map (\<lambda>i. (n div 256 ^ (7 - i)) mod 256) [0..<8]"

definition sha_pad :: "int list \<Rightarrow> int list" where
  "sha_pad bs =
     bs @ [128] @ replicate ((119 - length bs mod 64) mod 64) 0 @ be64 (8 * int (length bs))"

definition hex32 :: "int \<Rightarrow> string" where
  "hex32 w = map (\<lambda>i. hexdigit ((w div 16 ^ (7 - i)) mod 16)) [0..<8]"

fun state_hex :: "sha_state \<Rightarrow> string" where
  "state_hex (a, b, c, d, e, f, g, h) =
     hex32 a @ hex32 b @ hex32 c @ hex32 d @ hex32 e @ hex32 f @ hex32 g @ hex32 h"

definition sha256_hexdigest :: "string \<Rightarrow> string" where
  "sha256_hexdigest s =
     state_hex (foldl compress H256 (blocks16 (be_words (sha_pad (map of_char s)))))"

section \<open>\<^verbatim>\<open>utils/military_crypto.py\<close>: class \<^verbatim>\<open>MilitaryBlockchain\<close>\<close>

subsection \<open>\<^verbatim>\<open>create_merkle_tree\<close>\<close>

text \<open>
  One pass of the inner \<^verbatim>\<open>for i in range(0, len(leaves), 2)\<close> loop: index \<open>i\<close> is paired
  with \<open>i + 1\<close> when that exists, and with itself otherwise.
\<close>

definition next_level :: "string list \<Rightarrow> string list" where
  "next_level leaves =
     map (\<lambda>j. let i = 2 * j in
            if i + 1 < length leaves
            then sha256_hexdigest (leaves ! i @ leaves ! (i + 1))
            else sha256_hexdigest (leaves ! i @ leaves ! i))
         [0 ..< (length leaves + 1) div 2]"

lemma length_next_level: "length (next_level leaves) = (length leaves + 1) div 2"
  by (simp add: next_level_def)

function merkle_loop :: "string list \<Rightarrow> string list" where
  "merkle_loop leaves = (if 1 < length leaves then merkle_loop (next_level leaves) else leaves)"
  by pat_completeness auto
termination
  by (relation "measure length") (auto simp: length_next_level)

declare merkle_loop.simps [simp del]

definition create_merkle_tree :: "json list \<Rightarrow> string" where
  "create_merkle_tree transactions =
     (if transactions = [] then sha256_hexdigest []
      else case merkle_loop (map (\<lambda>tx. sha256_hexdigest (dumps tx)) transactions) of
             [] \<Rightarrow> sha256_hexdigest []
           | root # _ \<Rightarrow> root)"

subsection \<open>\<^verbatim>\<open>calculate_block_hash\<close>, \<^verbatim>\<open>mine_block\<close>\<close>

definition calculate_block_hash :: "pydict \<Rightarrow> string" where
  "calculate_block_hash block_data = sha256_hexdigest (dumps (JDict block_data))"

text \<open>
  The \<^verbatim>\<open>while True\<close> loop of \<^verbatim>\<open>mine_block\<close>. It writes the nonce into the caller's
  dictionary on every turn and may run forever: not returning is \<open>None\<close>.
\<close>

partial_function (option) mine_loop :: "pydict \<Rightarrow> string \<Rightarrow> int \<Rightarrow> (pydict \<times> string \<times> int) option" where
  "mine_loop block_data target nonce =
     (let block_data' = AList.update ''nonce'' (JInt nonce) block_data;
          block_hash = calculate_block_hash block_data'
      in if startswith block_hash target then Some (block_data', block_hash, nonce)
         else mine_loop block_data' target (nonce + 1))"

declare mine_loop.simps [code]

text \<open>
  \<open>mine_block_run\<close> gives the dictionary as the call leaves it together with the returned
  pair; \<open>mine_block\<close> is the returned pair \<^verbatim>\<open>(block_hash, nonce)\<close> alone.
  \<^verbatim>\<open>"0" * difficulty\<close> is empty for a difficulty below 1.
\<close>

definition mine_block_run :: "pydict \<Rightarrow> int \<Rightarrow> (pydict \<times> string \<times> int) option" where
  "mine_block_run block_data difficulty =
     mine_loop block_data (replicate (nat difficulty) CHR ''0'') 0"

definition mine_block :: "pydict \<Rightarrow> int \<Rightarrow> (string \<times> int) option" where
  "mine_block block_data difficulty = map_option snd (mine_block_run block_data difficulty)"

subsection \<open>\<^verbatim>\<open>validate_block_hash\<close>, \<^verbatim>\<open>validate_block_chain\<close>\<close>




section \<open>Mining returns the least nonce that meets the target\<close>

definition mined_ok :: "pydict \<Rightarrow> string \<Rightarrow> int \<Rightarrow> pydict \<times> string \<times> int \<Rightarrow> bool" where
  "mined_ok block_data target start y =
     (case y of (b', h, n) \<Rightarrow>
        start \<le> n
      \<and> b' = AList.update ''nonce'' (JInt n) block_data
      \<and> h = calculate_block_hash b'
      \<and> startswith h target
      \<and> (\<forall>k. start \<le> k \<and> k < n \<longrightarrow>
            \<not> startswith (calculate_block_hash (AList.update ''nonce'' (JInt k) block_data)) target))"

lemma mine_loop_mined_ok:
  assumes "mine_loop block_data target start = Some y"
  shows "mined_ok block_data target start y"
proof (rule mine_loop.raw_induct [where P = mined_ok, OF _ assms])
  fix f :: "pydict \<Rightarrow> string \<Rightarrow> int \<Rightarrow> (pydict \<times> string \<times> int) option"
    and block_data target nonce y
  assume ih: "\<And>b t s r. f b t s = Some r \<Longrightarrow> mined_ok b t s r"
    and body: "(let block_data' = AList.update ''nonce'' (JInt nonce) block_data;
                    block_hash = calculate_block_hash block_data'
                in if startswith block_hash target then Some (block_data', block_hash, nonce)
                   else f block_data' target (nonce + 1)) = Some y"
  let ?b = "AList.update ''nonce'' (JInt nonce) block_data"
  show "mined_ok block_data target nonce y"
  proof (cases "startswith (calculate_block_hash ?b) target")
    case True
    with body have "y = (?b, calculate_block_hash ?b, nonce)"
      by (simp add: Let_def)
    with True show ?thesis by (auto simp: mined_ok_def)
  next
    case False
    with body have "f ?b target (nonce + 1) = Some y"
      by (simp add: Let_def)
    from ih [OF this] obtain b' h n where y: "y = (b', h, n)"
      and le: "nonce + 1 \<le> n"
      and b': "b' = AList.update ''nonce'' (JInt n) block_data"
      and h: "h = calculate_block_hash b'" "startswith h target"
      and least: "\<forall>k. nonce + 1 \<le> k \<and> k < n \<longrightarrow>
           \<not> startswith (calculate_block_hash (AList.update ''nonce'' (JInt k) block_data)) target"
      by (cases y) (simp add: mined_ok_def)
    have "\<not> startswith (calculate_block_hash (AList.update ''nonce'' (JInt k) block_data)) target"
      if "nonce \<le> k" "k < n" for k
    proof (cases "k = nonce")
      case True
      with False show ?thesis by simp
    next
      case False
      with that least show ?thesis by simp
    qed
    with y le b' h show ?thesis by (simp add: mined_ok_def)
  qed
qed

lemma mine_loop_result:
  assumes "mine_loop block_data target start = Some (block_data', block_hash, nonce)"
  shows "start \<le> nonce
       \<and> block_data' = AList.update ''nonce'' (JInt nonce) block_data
       \<and> block_hash = calculate_block_hash block_data'
       \<and> startswith block_hash target
       \<and> (\<forall>k. start \<le> k \<and> k < nonce \<longrightarrow>
             \<not> startswith (calculate_block_hash (AList.update ''nonce'' (JInt k) block_data)) target)"
  using mine_loop_mined_ok [OF assms] by (auto simp: mined_ok_def)

text \<open>The loop returns as soon as some nonce from the start on meets the target.\<close>

lemma mine_loop_returns:
  assumes "start \<le> n"
    and "startswith (calculate_block_hash (AList.update ''nonce'' (JInt n) block_data)) target"
  shows "\<exists>y. mine_loop block_data target start = Some y"
  using assms
proof (induction "nat (n - start)" arbitrary: start block_data)
  case 0
  then have "start = n" by simp
  with 0(3) show ?case
    by (subst mine_loop.simps) (simp add: Let_def)
next
  case (Suc d)
  let ?b = "AList.update ''nonce'' (JInt start) block_data"
  show ?case
  proof (cases "startswith (calculate_block_hash ?b) target")
    case True
    then show ?thesis
      by (subst mine_loop.simps) (simp add: Let_def)
  next
    case False
    from Suc(2) have d: "d = nat (n - (start + 1))" and le: "start + 1 \<le> n" by simp_all
    from Suc(4) have "startswith (calculate_block_hash (AList.update ''nonce'' (JInt n) ?b)) target"
      by simp
    from Suc(1) [OF d le this] False show ?thesis
      by (subst mine_loop.simps) (simp add: Let_def)
  qed
qed

definition c5_block :: pydict where
  "c5_block = [(''data'', JStr ''d1'')]"

lemma c5_mined:
  "mine_block c5_block 1 =
     Some (''024d3a03d35eaeea6850082788702f4962da935248bb617b555c82fa672f5804'', 2)"
  by code_simp

text \<open>
  C5. Whenever \<open>mine_block\<close> returns a hash and a nonce, the hash is the SHA-256 of the
  canonical serialisation of the block with that nonce set, it starts with
  \<open>difficulty\<close> characters \<open>0\<close>, and no smaller non-negative nonce gives a hash that
  does.
\<close>

theorem mine_block_least_nonce:
  assumes "mine_block block_data difficulty = Some (block_hash, nonce)"
  shows "block_hash = calculate_block_hash (AList.update ''nonce'' (JInt nonce) block_data)
       \<and> take (nat difficulty) block_hash = replicate (nat difficulty) CHR ''0''
       \<and> 0 \<le> nonce
       \<and> (\<forall>k. 0 \<le> k \<and> k < nonce \<longrightarrow>
             take (nat difficulty)
               (calculate_block_hash (AList.update ''nonce'' (JInt k) block_data))
             \<noteq> replicate (nat difficulty) CHR ''0'')"
proof -
  from assms obtain b' where
    "mine_loop block_data (replicate (nat difficulty) CHR ''0'') 0 = Some (b', block_hash, nonce)"
    by (auto simp: mine_block_def mine_block_run_def)
  from mine_loop_result [OF this] show ?thesis
    by (auto simp: startswith_def)
qed

theorem mine_block_least_nonce_witness:
  "mine_block c5_block 1 =
     Some (''024d3a03d35eaeea6850082788702f4962da935248bb617b555c82fa672f5804'', 2)
   \<and> ''024d3a03d35eaeea6850082788702f4962da935248bb617b555c82fa672f5804'' =
       calculate_block_hash (AList.update ''nonce'' (JInt 2) c5_block)
   \<and> take (nat 1) ''024d3a03d35eaeea6850082788702f4962da935248bb617b555c82fa672f5804'' = ''0''
   \<and> take (nat 1) (calculate_block_hash (AList.update ''nonce'' (JInt 0) c5_block)) \<noteq> ''0''
   \<and> take (nat 1) (calculate_block_hash (AList.update ''nonce'' (JInt 1) c5_block)) \<noteq> ''0''"
proof -
  note r = mine_block_least_nonce [OF c5_mined]
  from r have h: "''024d3a03d35eaeea6850082788702f4962da935248bb617b555c82fa672f5804'' =
      calculate_block_hash (AList.update ''nonce'' (JInt 2) c5_block)"
    by blast
  have z: "take (nat 1) ''024d3a03d35eaeea6850082788702f4962da935248bb617b555c82fa672f5804'' = ''0''"
    by simp
  from r have least: "\<And>k. 0 \<le> k \<Longrightarrow> k < 2 \<Longrightarrow>
      take (nat 1) (calculate_block_hash (AList.update ''nonce'' (JInt k) c5_block)) \<noteq> ''0''"
    by simp
  from c5_mined h z least [of 0] least [of 1] show ?thesis
    by simp
qed

section \<open>Chain validation\<close>











section \<open>The Merkle root\<close>

text \<open>
  The root as the specification words it: hash the canonical serialisation of each
  transaction, then hash adjacent pairs left to right, an odd last leaf paired with
  itself, until one hash is left; the empty list gives the hash of the empty string.
\<close>

fun pair_up :: "string list \<Rightarrow> string list" where
  "pair_up [] = []"
| "pair_up [x] = [sha256_hexdigest (x @ x)]"
| "pair_up (x # y # rest) = sha256_hexdigest (x @ y) # pair_up rest"

lemma length_pair_up: "length (pair_up leaves) = (length leaves + 1) div 2"
  by (induction leaves rule: pair_up.induct) simp_all

function merkle_reduce :: "string list \<Rightarrow> string" where
  "merkle_reduce [] = sha256_hexdigest []"
| "merkle_reduce [root] = root"
| "merkle_reduce (x # y # rest) = merkle_reduce (pair_up (x # y # rest))"
  by pat_completeness auto
termination
  by (relation "measure length") (auto simp: length_pair_up)

definition merkle_root_spec :: "json list \<Rightarrow> string" where
  "merkle_root_spec txs = merkle_reduce (map (\<lambda>tx. sha256_hexdigest (dumps tx)) txs)"

lemma nth_pair_up:
  "j < (length leaves + 1) div 2 \<Longrightarrow>
   pair_up leaves ! j =
     (if 2 * j + 1 < length leaves
      then sha256_hexdigest (leaves ! (2 * j) @ leaves ! (2 * j + 1))
      else sha256_hexdigest (leaves ! (2 * j) @ leaves ! (2 * j)))"
proof (induction leaves arbitrary: j rule: pair_up.induct)
  case 1
  then show ?case by simp
next
  case (2 x)
  then show ?case by simp
next
  case (3 x y rest)
  show ?case
  proof (cases j)
    case 0
    then show ?thesis by simp
  next
    case (Suc j')
    with 3(2) have "j' < (length rest + 1) div 2" by simp
    from 3(1) [OF this] Suc show ?thesis by simp
  qed
qed

lemma next_level_pair_up: "next_level leaves = pair_up leaves"
proof (rule nth_equalityI)
  show "length (next_level leaves) = length (pair_up leaves)"
    by (simp add: length_next_level length_pair_up)
next
  fix j
  assume "j < length (next_level leaves)"
  then have j: "j < (length leaves + 1) div 2"
    by (simp add: length_next_level)
  then show "next_level leaves ! j = pair_up leaves ! j"
    by (simp add: next_level_def nth_pair_up Let_def)
qed

lemma merkle_loop_reduce:
  "(case merkle_loop leaves of [] \<Rightarrow> sha256_hexdigest [] | root # _ \<Rightarrow> root) = merkle_reduce leaves"
proof (induction leaves rule: merkle_reduce.induct)
  case 1
  show ?case by (simp add: merkle_loop.simps)
next
  case (2 root)
  show ?case by (simp add: merkle_loop.simps)
next
  case (3 x y rest)
  have "merkle_loop (x # y # rest) = merkle_loop (pair_up (x # y # rest))"
    by (subst merkle_loop.simps) (simp add: next_level_pair_up)
  with 3 show ?case by simp
qed

definition c2_tx_a :: json where
  "c2_tx_a = JDict []"

definition c2_tx_b :: json where
  "c2_tx_b = JDict [(''a'', JInt 1)]"

lemma c2_root_ab:
  "create_merkle_tree [c2_tx_a, c2_tx_b] =
     ''79f325e31f87d08ceb876f3d5c81f947bd7353898ded588f67d4408236e684f8''"
  by code_simp

lemma c2_root_ba:
  "create_merkle_tree [c2_tx_b, c2_tx_a] =
     ''aab7280e4c65cd074151bebcc468ddeb69a0e8f54ab89fe2f34cc901420fcafc''"
  by code_simp

text \<open>
  C2. \<open>create_merkle_tree\<close> returns the SHA-256 of the empty string on the empty list;
  on every list it returns the root the specification describes (leaves are the hashes
  of the key-sorted JSON of each transaction, adjacent pairs are hashed left to right,
  an odd last leaf is paired with itself, until one hash is left). The order of the
  transactions matters: swapping the two transactions \<open>{}\<close> and \<open>{"a": 1}\<close> changes the
  root.
\<close>

theorem create_merkle_tree_root:
  "create_merkle_tree [] = sha256_hexdigest []
   \<and> create_merkle_tree txs = merkle_root_spec txs
   \<and> create_merkle_tree [c2_tx_a, c2_tx_b] \<noteq> create_merkle_tree (rev [c2_tx_a, c2_tx_b])"
proof -
  have "create_merkle_tree txs = merkle_root_spec txs"
    by (cases txs) (simp_all add: create_merkle_tree_def merkle_root_spec_def merkle_loop_reduce)
  moreover have "create_merkle_tree [] = sha256_hexdigest []"
    by (simp add: create_merkle_tree_def)
  moreover have "create_merkle_tree [c2_tx_a, c2_tx_b] \<noteq> create_merkle_tree (rev [c2_tx_a, c2_tx_b])"
    by (simp add: c2_root_ab c2_root_ba)
  ultimately show ?thesis by auto
qed

section \<open>\<^verbatim>\<open>p2p_comm/battlefield_network.py\<close>\<close>

datatype ConnectivityMode = MODE_ONLINE | MODE_P2P_WIFI | MODE_P2P_RADIO | MODE_OFFLINE

datatype MessageType = CHAT | ALERT | COMMAND | STATUS | SYNC_REQUEST | SYNC_RESPONSE

fun message_type_value :: "MessageType \<Rightarrow> string" where
  "message_type_value CHAT = ''chat''"
| "message_type_value ALERT = ''alert''"
| "message_type_value COMMAND = ''command''"
| "message_type_value STATUS = ''status''"
| "message_type_value SYNC_REQUEST = ''sync_request''"
| "message_type_value SYNC_RESPONSE = ''sync_response''"

record P2PMessage =
  message_id :: string
  sender_id :: string
  receiver_id :: "string option"
  message_type :: MessageType
  content :: string
  timestamp :: string
  lamport_clock :: int
  vector_clock :: "(string \<times> int) list"
  encrypted_payload :: string
  digital_signature :: string
  hop_count :: int
  max_hops :: int

text \<open>\<^verbatim>\<open>P2PMessage.to_dict\<close>: the fields in declaration order, the enum by its value.\<close>

definition to_dict :: "P2PMessage \<Rightarrow> pydict" where
  "to_dict m =
     [(''message_id'', JStr (message_id m)),
      (''sender_id'', JStr (sender_id m)),
      (''receiver_id'', case receiver_id m of None \<Rightarrow> JNull | Some r \<Rightarrow> JStr r),
      (''message_type'', JStr (message_type_value (message_type m))),
      (''content'', JStr (content m)),
      (''timestamp'', JFloat (timestamp m)),
      (''lamport_clock'', JInt (lamport_clock m)),
      (''vector_clock'', JDict (map (\<lambda>(k, v). (k, JInt v)) (vector_clock m))),
      (''encrypted_payload'', JStr (encrypted_payload m)),
      (''digital_signature'', JStr (digital_signature m)),
      (''hop_count'', JInt (hop_count m)),
      (''max_hops'', JInt (max_hops m))]"

record PeerNode =
  node_id :: string
  node_name :: string
  rank :: string
  location :: "string \<times> string"
  connectivity_mode :: ConnectivityMode
  is_online :: bool
  last_seen :: string
  public_key :: string
  private_key :: string

subsection \<open>class \<^verbatim>\<open>LocalLedger\<close>\<close>

record LocalLedger =
  ledger_node_id :: string
  blocks :: "pydict list"
  pending_messages :: "P2PMessage list"
  last_block_hash :: string

definition LocalLedger_init :: "string \<Rightarrow> LocalLedger" where
  "LocalLedger_init nid =
     \<lparr>ledger_node_id = nid, blocks = [], pending_messages = [],
      last_block_hash = replicate 64 CHR ''0''\<rparr>"

text \<open>The dictionary \<^verbatim>\<open>add_message\<close> builds before mining; \<open>now\<close> is what \<^verbatim>\<open>time.time()\<close> returned.\<close>

definition new_block :: "LocalLedger \<Rightarrow> P2PMessage \<Rightarrow> string \<Rightarrow> pydict" where
  "new_block ledger message now =
     [(''block_number'', JInt (int (length (blocks ledger)))),
      (''timestamp'', JFloat now),
      (''previous_hash'', JStr (last_block_hash ledger)),
      (''message_data'', JDict (to_dict message)),
      (''node_id'', JStr (ledger_node_id ledger)),
      (''nonce'', JInt 0)]"

text \<open>
  \<^verbatim>\<open>add_message\<close> returns the block and leaves the ledger changed; when mining does not
  return, neither does it.
\<close>

definition add_message :: "LocalLedger \<Rightarrow> P2PMessage \<Rightarrow> string \<Rightarrow> (LocalLedger \<times> pydict) option" where
  "add_message ledger message now =
     (case mine_block_run (new_block ledger message now) 2 of
        None \<Rightarrow> None
      | Some (mined, block_hash, nonce) \<Rightarrow>
          let block = AList.update ''nonce'' (JInt nonce)
                        (AList.update ''block_hash'' (JStr block_hash) mined)
          in Some (ledger\<lparr>blocks := blocks ledger @ [block], last_block_hash := block_hash\<rparr>,
                   block))"

text \<open>The ledgers a fresh one can turn into by calls of \<^verbatim>\<open>add_message\<close>.\<close>

inductive ledger_reachable :: "LocalLedger \<Rightarrow> bool" where
  fresh: "ledger_reachable (LocalLedger_init nid)"
| added: "ledger_reachable ledger \<Longrightarrow> add_message ledger message now = Some (ledger', block)
          \<Longrightarrow> ledger_reachable ledger'"

subsection \<open>class \<^verbatim>\<open>P2PNetworkSimulator\<close>\<close>

datatype py_error = KeyError | CryptoError

text \<open>
  A \<^verbatim>\<open>P2PMessage\<close> is an object: \<^verbatim>\<open>deliver_via_p2p\<close> increments the hop count of a
  message that a queue may already hold. The messages therefore live in a store, in the
  order of their creation, and a queue holds positions in it.
\<close>

record P2PNetworkSimulator =
  nodes :: "(string \<times> PeerNode) list"
  ledgers :: "(string \<times> LocalLedger) list"
  message_queues :: "(string \<times> nat list) list"
  network_topology :: "(string \<times> string list) list"
  server_online :: bool
  net_lamport_clock :: int
  messages :: "P2PMessage list"

text \<open>
  The simulator is one object that outlives a call that raises: an exception is the
  error together with the simulator as the call left it (\<open>Inl\<close>).
\<close>

type_synonym 'a outcome = "(py_error \<times> P2PNetworkSimulator) + 'a"



subsubsection \<open>\<^verbatim>\<open>establish_p2p_connections\<close>\<close>






subsubsection \<open>Delivery\<close>

text \<open>\<^verbatim>\<open>self.message_queues[k].append(message)\<close>\<close>

definition queue_append :: "(string \<times> nat list) list \<Rightarrow> string \<Rightarrow> nat \<Rightarrow> py_error + (string \<times> nat list) list" where
  "queue_append queues k ref =
     (case map_of queues k of
        None \<Rightarrow> Inl KeyError
      | Some q \<Rightarrow> Inr (AList.update k (q @ [ref]) queues))"




text \<open>
  The loop of \<^verbatim>\<open>deliver_via_p2p\<close> over the connected peers (a Python set: the list has no
  duplicates), with the flag \<^verbatim>\<open>delivered\<close>.
\<close>

fun p2p_loop :: "nat \<Rightarrow> string list \<Rightarrow> P2PNetworkSimulator \<Rightarrow> bool \<Rightarrow> (P2PNetworkSimulator \<times> bool) outcome" where
  "p2p_loop ref [] net delivered = Inr (net, delivered)"
| "p2p_loop ref (peer_id # rest) net delivered =
     (case map_of (nodes net) peer_id of
        None \<Rightarrow> Inl (KeyError, net)
      | Some peer \<Rightarrow>
          if \<not> is_online peer then p2p_loop ref rest net delivered
          else if receiver_id (messages net ! ref) = Some peer_id then
            (case queue_append (message_queues net) peer_id ref of
               Inl e \<Rightarrow> Inl (e, net)
             | Inr queues \<Rightarrow> p2p_loop ref rest (net\<lparr>message_queues := queues\<rparr>) True)
          else if receiver_id (messages net ! ref) = None then
            (case queue_append (message_queues net) peer_id ref of
               Inl e \<Rightarrow> Inl (e, net)
             | Inr queues \<Rightarrow> p2p_loop ref rest (net\<lparr>message_queues := queues\<rparr>) True)
          else
            p2p_loop ref rest
              (net\<lparr>messages := (messages net)
                 [ref := (messages net ! ref)\<lparr>hop_count := hop_count (messages net ! ref) + 1\<rparr>]\<rparr>)
              delivered)"

definition connected_peers :: "P2PNetworkSimulator \<Rightarrow> string \<Rightarrow> string list" where
  "connected_peers net sender = (case map_of (network_topology net) sender of None \<Rightarrow> [] | Some ps \<Rightarrow> ps)"

text \<open>After the loop, a delivered broadcast prints the sender's name, looked up in \<^verbatim>\<open>self.nodes\<close>.\<close>

definition deliver_via_p2p :: "P2PNetworkSimulator \<Rightarrow> nat \<Rightarrow> (P2PNetworkSimulator \<times> bool) outcome" where
  "deliver_via_p2p net ref =
     (let message = messages net ! ref in
      if max_hops message \<le> hop_count message then Inr (net, False)
      else
        (case p2p_loop ref (connected_peers net (sender_id message)) net False of
           Inl e \<Rightarrow> Inl e
         | Inr (net', delivered) \<Rightarrow>
             if receiver_id message = None \<and> delivered \<and> map_of (nodes net') (sender_id message) = None
             then Inl (KeyError, net')
             else Inr (net', delivered)))"


subsubsection \<open>\<^verbatim>\<open>send_message\<close>\<close>




section \<open>The local ledger\<close>

lemma add_message_result:
  assumes "add_message ledger message now = Some (ledger', block)"
  obtains block_hash nonce where
    "mine_block (new_block ledger message now) 2 = Some (block_hash, nonce)"
    "block = AList.update ''block_hash'' (JStr block_hash)
               (AList.update ''nonce'' (JInt nonce) (new_block ledger message now))"
    "ledger' = ledger\<lparr>blocks := blocks ledger @ [block], last_block_hash := block_hash\<rparr>"
proof -
  from assms obtain mined block_hash nonce where
    run: "mine_block_run (new_block ledger message now) 2 = Some (mined, block_hash, nonce)"
    and block: "block = AList.update ''nonce'' (JInt nonce)
                          (AList.update ''block_hash'' (JStr block_hash) mined)"
    and ledger': "ledger' = ledger\<lparr>blocks := blocks ledger @ [block], last_block_hash := block_hash\<rparr>"
    by (auto simp: add_message_def Let_def split: option.splits)
  from run have "mined = AList.update ''nonce'' (JInt nonce) (new_block ledger message now)"
    using mine_loop_result [of "new_block ledger message now" _ 0 mined block_hash nonce]
    by (simp add: mine_block_run_def)
  with block have b: "block = AList.update ''block_hash'' (JStr block_hash)
      (AList.update ''nonce'' (JInt nonce) (new_block ledger message now))"
    by (simp add: new_block_def)
  from run have m: "mine_block (new_block ledger message now) 2 = Some (block_hash, nonce)"
    by (simp add: mine_block_def)
  from m b ledger' show thesis by (rule that)
qed

lemma add_message_fields:
  assumes "add_message ledger message now = Some (ledger', block)"
  shows "py_get block ''block_number'' = JInt (int (length (blocks ledger)))"
    and "py_get block ''previous_hash'' = JStr (last_block_hash ledger)"
    and "py_get block ''timestamp'' = JFloat now"
    and "py_get block ''message_data'' = JDict (to_dict message)"
    and "py_get block ''node_id'' = JStr (ledger_node_id ledger)"
    and "map_of block ''merkle_root'' = None"
    and "py_get block ''block_hash'' = JStr (last_block_hash ledger')"
    and "blocks ledger' = blocks ledger @ [block]"
  using assms
  by (auto elim!: add_message_result simp: py_get_def new_block_def update_conv')

definition c_msg1 :: P2PMessage where
  "c_msg1 =
     \<lparr>message_id = ''m1'', sender_id = ''a'', receiver_id = Some ''b'', message_type = CHAT,
      content = ''x87'', timestamp = ''1.0'', lamport_clock = 1,
      vector_clock = [(''a'', 1), (''b'', 0)], encrypted_payload = [], digital_signature = [],
      hop_count = 0, max_hops = 5\<rparr>"

definition c_msg2 :: P2PMessage where
  "c_msg2 =
     \<lparr>message_id = ''m2'', sender_id = ''a'', receiver_id = Some ''b'', message_type = CHAT,
      content = ''y256'', timestamp = ''1.0'', lamport_clock = 2,
      vector_clock = [(''a'', 2), (''b'', 0)], encrypted_payload = [], digital_signature = [],
      hop_count = 0, max_hops = 5\<rparr>"

definition c_hash1 :: string where
  "c_hash1 = ''00590ca65ce566236cba457c2446101b0c0f76eead8794433ab2ae6d493f6f71''"

definition c_hash2 :: string where
  "c_hash2 = ''00e6567d0d593ebe8c8ee65a930a0a169f5a64e0281ce25821edbe7a6c86b8c3''"

definition c_block1 :: pydict where
  "c_block1 =
     [(''block_number'', JInt 0), (''timestamp'', JFloat ''1.5''),
      (''previous_hash'', JStr (replicate 64 CHR ''0'')),
      (''message_data'', JDict (to_dict c_msg1)), (''node_id'', JStr ''a''),
      (''nonce'', JInt 0), (''block_hash'', JStr c_hash1)]"

definition c_block2 :: pydict where
  "c_block2 =
     [(''block_number'', JInt 1), (''timestamp'', JFloat ''1.5''),
      (''previous_hash'', JStr c_hash1),
      (''message_data'', JDict (to_dict c_msg2)), (''node_id'', JStr ''a''),
      (''nonce'', JInt 0), (''block_hash'', JStr c_hash2)]"

definition c_ledger1 :: LocalLedger where
  "c_ledger1 =
     \<lparr>ledger_node_id = ''a'', blocks = [c_block1], pending_messages = [], last_block_hash = c_hash1\<rparr>"

definition c_ledger2 :: LocalLedger where
  "c_ledger2 =
     \<lparr>ledger_node_id = ''a'', blocks = [c_block1, c_block2], pending_messages = [],
      last_block_hash = c_hash2\<rparr>"

lemma c_added1: "add_message (LocalLedger_init ''a'') c_msg1 ''1.5'' = Some (c_ledger1, c_block1)"
  by code_simp

lemma c_added2: "add_message c_ledger1 c_msg2 ''1.5'' = Some (c_ledger2, c_block2)"
  by code_simp

text \<open>
  C3, as the code has it. \<open>add_message\<close> builds the block with \<^verbatim>\<open>block_number\<close> the
  length of the chain, \<^verbatim>\<open>previous_hash\<close> the ledger's \<^verbatim>\<open>last_block_hash\<close>, the clock
  reading as \<^verbatim>\<open>timestamp\<close>, the message as \<^verbatim>\<open>message_data\<close>, and no \<^verbatim>\<open>merkle_root\<close> field;
  it mines the block at difficulty 2, stores the mined hash and nonce in it, appends it
  and sets \<^verbatim>\<open>last_block_hash\<close> to the mined hash.
\<close>

theorem add_message_block:
  assumes "add_message ledger message now = Some (ledger', block)"
  shows "py_get block ''block_number'' = JInt (int (length (blocks ledger)))
       \<and> py_get block ''previous_hash'' = JStr (last_block_hash ledger)
       \<and> py_get block ''timestamp'' = JFloat now
       \<and> py_get block ''message_data'' = JDict (to_dict message)
       \<and> map_of block ''merkle_root'' = None
       \<and> (\<exists>block_hash nonce.
             mine_block (new_block ledger message now) 2 = Some (block_hash, nonce)
           \<and> py_get block ''block_hash'' = JStr block_hash
           \<and> py_get block ''nonce'' = JInt nonce
           \<and> last_block_hash ledger' = block_hash)
       \<and> blocks ledger' = blocks ledger @ [block]"
proof -
  from assms obtain block_hash nonce where
    "mine_block (new_block ledger message now) 2 = Some (block_hash, nonce)"
    "block = AList.update ''block_hash'' (JStr block_hash)
               (AList.update ''nonce'' (JInt nonce) (new_block ledger message now))"
    "ledger' = ledger\<lparr>blocks := blocks ledger @ [block], last_block_hash := block_hash\<rparr>"
    by (rule add_message_result)
  then have "\<exists>block_hash nonce.
             mine_block (new_block ledger message now) 2 = Some (block_hash, nonce)
           \<and> py_get block ''block_hash'' = JStr block_hash
           \<and> py_get block ''nonce'' = JInt nonce
           \<and> last_block_hash ledger' = block_hash"
    by (auto simp: py_get_def new_block_def update_conv')
  with add_message_fields [OF assms] show ?thesis by simp
qed

theorem add_message_block_witness:
  "add_message (LocalLedger_init ''a'') c_msg1 ''1.5'' = Some (c_ledger1, c_block1)
   \<and> py_get c_block1 ''block_number'' = JInt (int (length (blocks (LocalLedger_init ''a''))))
   \<and> py_get c_block1 ''previous_hash'' = JStr (last_block_hash (LocalLedger_init ''a''))
   \<and> py_get c_block1 ''message_data'' = JDict (to_dict c_msg1)
   \<and> map_of c_block1 ''merkle_root'' = None
   \<and> mine_block (new_block (LocalLedger_init ''a'') c_msg1 ''1.5'') 2 = Some (c_hash1, 0)
   \<and> last_block_hash c_ledger1 = c_hash1
   \<and> blocks c_ledger1 = blocks (LocalLedger_init ''a'') @ [c_block1]"
proof -
  note r = add_message_block [OF c_added1]
  from r obtain block_hash nonce where
    m: "mine_block (new_block (LocalLedger_init ''a'') c_msg1 ''1.5'') 2 = Some (block_hash, nonce)"
    and h: "py_get c_block1 ''block_hash'' = JStr block_hash"
    and n: "py_get c_block1 ''nonce'' = JInt nonce"
    and l: "last_block_hash c_ledger1 = block_hash"
    by blast
  from h n have "block_hash = c_hash1" "nonce = 0"
    by (simp_all add: c_block1_def py_get_def)
  with m l r c_added1 show ?thesis by simp
qed

text \<open>
  The block that a fresh ledger appends for the message \<open>c_msg1\<close> has no \<^verbatim>\<open>merkle_root\<close>:
  reading the field gives \<^verbatim>\<open>None\<close>, not the Merkle root over the message.
\<close>

theorem add_message_block_counterexample:
  "add_message (LocalLedger_init ''a'') c_msg1 ''1.5'' = Some (c_ledger1, c_block1)
   \<and> py_get c_block1 ''merkle_root'' = JNull
   \<and> py_get c_block1 ''merkle_root'' \<noteq> JStr (create_merkle_tree [JDict (to_dict c_msg1)])"
  using c_added1 by (simp add: c_block1_def py_get_def)

lemma ledger_invariant_step:
  assumes "add_message ledger message now = Some (ledger', block)"
    and "blocks ledger = [] \<longrightarrow> last_block_hash ledger = replicate 64 CHR ''0''"
    and "blocks ledger \<noteq> [] \<longrightarrow>
           py_get (last (blocks ledger)) ''block_hash'' = JStr (last_block_hash ledger)"
    and "\<forall>i<length (blocks ledger). py_get (blocks ledger ! i) ''block_number'' = JInt (int i)"
    and "\<forall>i. Suc i < length (blocks ledger) \<longrightarrow>
           py_get (blocks ledger ! Suc i) ''previous_hash'' = py_get (blocks ledger ! i) ''block_hash''"
  shows "blocks ledger' \<noteq> []"
    and "py_get (last (blocks ledger')) ''block_hash'' = JStr (last_block_hash ledger')"
    and "\<forall>i<length (blocks ledger'). py_get (blocks ledger' ! i) ''block_number'' = JInt (int i)"
    and "\<forall>i. Suc i < length (blocks ledger') \<longrightarrow>
           py_get (blocks ledger' ! Suc i) ''previous_hash'' = py_get (blocks ledger' ! i) ''block_hash''"
proof -
  note f = add_message_fields [OF assms(1)]
  show "blocks ledger' \<noteq> []" by (simp add: f(8))
  show "py_get (last (blocks ledger')) ''block_hash'' = JStr (last_block_hash ledger')"
    by (simp add: f(8) f(7))
  show "\<forall>i<length (blocks ledger'). py_get (blocks ledger' ! i) ''block_number'' = JInt (int i)"
    using assms(4) by (auto simp: f(8) f(1) nth_append less_Suc_eq)
  show "\<forall>i. Suc i < length (blocks ledger') \<longrightarrow>
           py_get (blocks ledger' ! Suc i) ''previous_hash'' = py_get (blocks ledger' ! i) ''block_hash''"
  proof (intro allI impI)
    fix i
    assume i: "Suc i < length (blocks ledger')"
    show "py_get (blocks ledger' ! Suc i) ''previous_hash'' = py_get (blocks ledger' ! i) ''block_hash''"
    proof (cases "Suc i < length (blocks ledger)")
      case True
      with assms(5) show ?thesis by (simp add: f(8) nth_append)
    next
      case False
      with i have eq: "Suc i = length (blocks ledger)" by (simp add: f(8))
      then have ne: "blocks ledger \<noteq> []" by auto
      from eq have "blocks ledger ! i = last (blocks ledger)"
        by (metis ne diff_Suc_1 last_conv_nth)
      with eq ne assms(3) show ?thesis
        by (simp add: f(8) f(2) nth_append)
    qed
  qed
qed

text \<open>
  C4. In every ledger reached from a fresh one by calls of \<open>add_message\<close>,
  \<^verbatim>\<open>last_block_hash\<close> is the \<^verbatim>\<open>block_hash\<close> of the last block (the 64-zero hash when
  there is none), every block's \<^verbatim>\<open>block_number\<close> is its index, and every block after
  the first has \<^verbatim>\<open>previous_hash\<close> equal to its predecessor's \<^verbatim>\<open>block_hash\<close>.
\<close>

theorem ledger_invariant:
  assumes "ledger_reachable ledger"
  shows "(blocks ledger = [] \<longrightarrow> last_block_hash ledger = replicate 64 CHR ''0'')
       \<and> (blocks ledger \<noteq> [] \<longrightarrow>
            py_get (last (blocks ledger)) ''block_hash'' = JStr (last_block_hash ledger))
       \<and> (\<forall>i<length (blocks ledger). py_get (blocks ledger ! i) ''block_number'' = JInt (int i))
       \<and> (\<forall>i. Suc i < length (blocks ledger) \<longrightarrow>
            py_get (blocks ledger ! Suc i) ''previous_hash'' = py_get (blocks ledger ! i) ''block_hash'')"
  using assms
proof (induction rule: ledger_reachable.induct)
  case (fresh nid)
  show ?case by (simp add: LocalLedger_init_def)
next
  case (added ledger message now ledger' block)
  from ledger_invariant_step [OF added(2)] added(3) show ?case by blast
qed

theorem ledger_invariant_witness:
  "ledger_reachable c_ledger2
   \<and> py_get (last (blocks c_ledger2)) ''block_hash'' = JStr (last_block_hash c_ledger2)
   \<and> py_get (blocks c_ledger2 ! 0) ''block_number'' = JInt 0
   \<and> py_get (blocks c_ledger2 ! 1) ''block_number'' = JInt 1
   \<and> py_get (blocks c_ledger2 ! 1) ''previous_hash'' = py_get (blocks c_ledger2 ! 0) ''block_hash''"
proof -
  have reach: "ledger_reachable c_ledger2"
    by (rule ledger_reachable.added [OF ledger_reachable.added [OF ledger_reachable.fresh c_added1] c_added2])
  note inv = ledger_invariant [OF reach]
  have len: "length (blocks c_ledger2) = 2" and ne: "blocks c_ledger2 \<noteq> []"
    by (simp_all add: c_ledger2_def)
  from inv ne have "py_get (last (blocks c_ledger2)) ''block_hash'' = JStr (last_block_hash c_ledger2)"
    by blast
  moreover from inv have n: "\<forall>i<length (blocks c_ledger2). py_get (blocks c_ledger2 ! i) ''block_number'' = JInt (int i)"
    by blast
  from n [rule_format, of 0] n [rule_format, of 1] len
  have "py_get (blocks c_ledger2 ! 0) ''block_number'' = JInt 0"
    and "py_get (blocks c_ledger2 ! 1) ''block_number'' = JInt 1"
    by simp_all
  moreover from inv have l: "\<forall>i. Suc i < length (blocks c_ledger2) \<longrightarrow>
      py_get (blocks c_ledger2 ! Suc i) ''previous_hash'' = py_get (blocks c_ledger2 ! i) ''block_hash''"
    by blast
  from l [rule_format, of 0] len
  have "py_get (blocks c_ledger2 ! 1) ''previous_hash'' = py_get (blocks c_ledger2 ! 0) ''block_hash''"
    by simp
  ultimately show ?thesis using reach by simp
qed

section \<open>Direct P2P delivery\<close>

definition node_online :: "P2PNetworkSimulator \<Rightarrow> string \<Rightarrow> bool" where
  "node_online net n = (case map_of (nodes net) n of None \<Rightarrow> False | Some peer \<Rightarrow> is_online peer)"

text \<open>What the peer loop does to the queues, for a message with a receiver.\<close>

definition queues_after :: "P2PNetworkSimulator \<Rightarrow> nat \<Rightarrow> string \<Rightarrow> string list \<Rightarrow> string \<Rightarrow> nat list option" where
  "queues_after net ref r peers n =
     (if n = r \<and> n \<in> set peers \<and> node_online net n
      then map_option (\<lambda>q. q @ [ref]) (map_of (message_queues net) n)
      else map_of (message_queues net) n)"

lemma p2p_loop_queues:
  assumes "p2p_loop ref peers net delivered = Inr (net', delivered')"
    and "ref < length (messages net)"
    and "receiver_id (messages net ! ref) = Some r"
    and "distinct peers"
  shows "nodes net' = nodes net
       \<and> (\<forall>n. map_of (message_queues net') n = queues_after net ref r peers n)
       \<and> (r \<in> set peers \<and> node_online net r \<longrightarrow> map_of (message_queues net) r \<noteq> None)
       \<and> delivered' = (delivered \<or> (r \<in> set peers \<and> node_online net r))"
  using assms
proof (induction peers arbitrary: net delivered)
  case Nil
  then show ?case by (simp add: queues_after_def)
next
  case (Cons peer_id rest)
  from Cons.prems(1) obtain peer where peer: "map_of (nodes net) peer_id = Some peer"
    by (auto split: option.splits)
  from Cons.prems(4) have d: "peer_id \<notin> set rest" "distinct rest" by simp_all
  show ?case
  proof (cases "is_online peer")
    case False
    with Cons.prems(1) peer have "p2p_loop ref rest net delivered = Inr (net', delivered')"
      by simp
    from Cons.IH [OF this Cons.prems(2,3) d(2)] False peer show ?thesis
      by (auto simp: queues_after_def node_online_def)
  next
    case True
    show ?thesis
    proof (cases "peer_id = r")
      case same: True
      from Cons.prems(1) peer True same Cons.prems(3)
      obtain q where q: "map_of (message_queues net) r = Some q"
        and rec: "p2p_loop ref rest
                    (net\<lparr>message_queues := AList.update r (q @ [ref]) (message_queues net)\<rparr>) True
                  = Inr (net', delivered')"
        by (auto simp: queue_append_def split: option.splits sum.splits)
      let ?net1 = "net\<lparr>message_queues := AList.update r (q @ [ref]) (message_queues net)\<rparr>"
      have "ref < length (messages ?net1)" "receiver_id (messages ?net1 ! ref) = Some r"
        using Cons.prems(2,3) by simp_all
      from Cons.IH [OF rec this d(2)] d(1) same peer True q show ?thesis
        by (auto simp: queues_after_def node_online_def update_conv')
    next
      case other: False
      let ?net2 = "net\<lparr>messages := (messages net)
          [ref := (messages net ! ref)\<lparr>hop_count := hop_count (messages net ! ref) + 1\<rparr>]\<rparr>"
      from Cons.prems(1) peer True other Cons.prems(3)
      have rec: "p2p_loop ref rest ?net2 delivered = Inr (net', delivered')"
        by auto
      have "ref < length (messages ?net2)" "receiver_id (messages ?net2 ! ref) = Some r"
        using Cons.prems(2,3) by simp_all
      from Cons.IH [OF rec this d(2)] other show ?thesis
        by (auto simp: queues_after_def node_online_def)
    qed
  qed
qed

lemma p2p_loop_returns:
  assumes "\<forall>p\<in>set peers. map_of (nodes net) p \<noteq> None \<and> map_of (message_queues net) p \<noteq> None"
  shows "\<exists>net' delivered'. p2p_loop ref peers net delivered = Inr (net', delivered')"
  using assms
proof (induction peers arbitrary: net delivered)
  case Nil
  show ?case by simp
next
  case (Cons peer_id rest)
  from Cons.prems obtain peer q where peer: "map_of (nodes net) peer_id = Some peer"
    and q: "map_of (message_queues net) peer_id = Some q"
    by auto
  have keep: "\<forall>p\<in>set rest. map_of (nodes net1) p \<noteq> None \<and> map_of (message_queues net1) p \<noteq> None"
    if "nodes net1 = nodes net"
      and "message_queues net1 = message_queues net
           \<or> message_queues net1 = AList.update peer_id (q @ [ref]) (message_queues net)"
    for net1
    using that Cons.prems by (auto simp: update_conv')
  let ?appended = "net\<lparr>message_queues := AList.update peer_id (q @ [ref]) (message_queues net)\<rparr>"
  let ?hopped = "net\<lparr>messages := (messages net)
      [ref := (messages net ! ref)\<lparr>hop_count := hop_count (messages net ! ref) + 1\<rparr>]\<rparr>"
  have "\<exists>net' delivered'. p2p_loop ref rest net delivered = Inr (net', delivered')"
    and "\<exists>net' delivered'. p2p_loop ref rest ?appended True = Inr (net', delivered')"
    and "\<exists>net' delivered'. p2p_loop ref rest ?hopped delivered = Inr (net', delivered')"
    by (rule Cons.IH, rule keep, simp, simp)+
  with peer q show ?case
    by (simp add: queue_append_def)
qed

definition c9_node :: "string \<Rightarrow> bool \<Rightarrow> PeerNode" where
  "c9_node nid up =
     \<lparr>node_id = nid, node_name = nid, rank = ''Private'', location = (''0.0'', ''0.0''),
      connectivity_mode = (if up then MODE_P2P_WIFI else MODE_OFFLINE), is_online = up,
      last_seen = ''0.0'', public_key = [], private_key = []\<rparr>"

definition c9_message :: P2PMessage where
  "c9_message =
     \<lparr>message_id = ''m'', sender_id = ''a'', receiver_id = Some ''d'', message_type = ALERT,
      content = ''contact'', timestamp = ''0.0'', lamport_clock = 1, vector_clock = [],
      encrypted_payload = [], digital_signature = [], hop_count = 0, max_hops = 5\<rparr>"

text \<open>
  A chain \<open>a - b - c - d\<close> of online nodes: \<open>d\<close> is three hops from \<open>a\<close>. The first
  message is for \<open>d\<close>, the second for the neighbour \<open>b\<close>.
\<close>

definition c9_direct :: P2PMessage where
  "c9_direct = c9_message\<lparr>message_id := ''n'', receiver_id := Some ''b''\<rparr>"

definition c9_net :: P2PNetworkSimulator where
  "c9_net =
     \<lparr>nodes = [(''a'', c9_node ''a'' True), (''b'', c9_node ''b'' True),
               (''c'', c9_node ''c'' True), (''d'', c9_node ''d'' True)],
      ledgers = [],
      message_queues = [(''a'', []), (''b'', []), (''c'', []), (''d'', [])],
      network_topology = [(''a'', [''b'']), (''b'', [''a'', ''c'']), (''c'', [''b'', ''d'']), (''d'', [''c''])],
      server_online = False, net_lamport_clock = 2, messages = [c9_message, c9_direct]\<rparr>"

text \<open>
  C9. For a message with a receiver and hop budget left, in a network where every peer
  of the sender is a known node with a queue, \<open>deliver_via_p2p\<close> returns, and it appends
  the message to the queue of a node exactly when that node is the receiver, is one of
  the sender's connected peers and is online; every other queue is unchanged, so no node
  that is not a direct neighbour of the sender ever receives it. The call reports
  delivery exactly in that case.
\<close>

theorem deliver_via_p2p_direct_only:
  assumes "ref < length (messages net)"
    and "receiver_id (messages net ! ref) = Some r"
    and "hop_count (messages net ! ref) < max_hops (messages net ! ref)"
    and "distinct (connected_peers net (sender_id (messages net ! ref)))"
    and "\<forall>p\<in>set (connected_peers net (sender_id (messages net ! ref))).
           map_of (nodes net) p \<noteq> None \<and> map_of (message_queues net) p \<noteq> None"
  shows "\<exists>net' delivered.
           deliver_via_p2p net ref = Inr (net', delivered)
         \<and> (\<forall>n. n = r \<and> n \<in> set (connected_peers net (sender_id (messages net ! ref)))
                   \<and> node_online net n \<longrightarrow>
                (\<exists>q. map_of (message_queues net) n = Some q
                    \<and> map_of (message_queues net') n = Some (q @ [ref])))
         \<and> (\<forall>n. \<not> (n = r \<and> n \<in> set (connected_peers net (sender_id (messages net ! ref)))
                   \<and> node_online net n) \<longrightarrow>
                map_of (message_queues net') n = map_of (message_queues net) n)
         \<and> delivered = (r \<in> set (connected_peers net (sender_id (messages net ! ref)))
                          \<and> node_online net r)"
proof -
  let ?peers = "connected_peers net (sender_id (messages net ! ref))"
  from p2p_loop_returns [OF assms(5)] obtain net' delivered
    where loop: "p2p_loop ref ?peers net False = Inr (net', delivered)"
    by blast
  with assms(2,3) have run: "deliver_via_p2p net ref = Inr (net', delivered)"
    by (simp add: deliver_via_p2p_def Let_def)
  note q = p2p_loop_queues [OF loop assms(1,2,4)]
  from q have "\<forall>n. n = r \<and> n \<in> set ?peers \<and> node_online net n \<longrightarrow>
      (\<exists>q. map_of (message_queues net) n = Some q \<and> map_of (message_queues net') n = Some (q @ [ref]))"
    by (auto simp: queues_after_def)
  moreover from q have "\<forall>n. \<not> (n = r \<and> n \<in> set ?peers \<and> node_online net n) \<longrightarrow>
      map_of (message_queues net') n = map_of (message_queues net) n"
    by (auto simp: queues_after_def)
  moreover from q have "delivered = (r \<in> set ?peers \<and> node_online net r)"
    by simp
  ultimately show ?thesis using run by blast
qed

definition c9_forwarded :: P2PNetworkSimulator where
  "c9_forwarded = c9_net\<lparr>messages := [c9_message\<lparr>hop_count := 1\<rparr>, c9_direct]\<rparr>"

definition c9_delivered :: P2PNetworkSimulator where
  "c9_delivered = c9_net\<lparr>message_queues := [(''a'', []), (''b'', [1]), (''c'', []), (''d'', [])]\<rparr>"

lemma c9_run_far: "deliver_via_p2p c9_net 0 = Inr (c9_forwarded, False)"
  by code_simp

lemma c9_run_near: "deliver_via_p2p c9_net 1 = Inr (c9_delivered, True)"
  by code_simp

theorem deliver_via_p2p_direct_only_witness:
  "deliver_via_p2p c9_net 0 = Inr (c9_forwarded, False)
   \<and> map_of (message_queues c9_forwarded) ''b'' = map_of (message_queues c9_net) ''b''
   \<and> map_of (message_queues c9_forwarded) ''c'' = map_of (message_queues c9_net) ''c''
   \<and> map_of (message_queues c9_forwarded) ''d'' = map_of (message_queues c9_net) ''d''
   \<and> deliver_via_p2p c9_net 1 = Inr (c9_delivered, True)
   \<and> map_of (message_queues c9_delivered) ''b'' = Some ([] @ [1])
   \<and> map_of (message_queues c9_delivered) ''d'' = map_of (message_queues c9_net) ''d''"
proof -
  have peers: "connected_peers c9_net ''a'' = [''b'']"
    by (simp add: connected_peers_def c9_net_def)
  have known: "map_of (nodes c9_net) ''b'' \<noteq> None" "map_of (message_queues c9_net) ''b'' = Some []"
    by (simp_all add: c9_net_def)
  have online: "node_online c9_net ''b''"
    by (simp add: node_online_def c9_net_def c9_node_def)
  have m0: "messages c9_net ! 0 = c9_message" and m1: "messages c9_net ! 1 = c9_direct"
    and m1': "messages c9_net ! Suc 0 = c9_direct" and len: "length (messages c9_net) = 2"
    by (simp_all add: c9_net_def)
  have far: "\<exists>net' delivered.
           deliver_via_p2p c9_net 0 = Inr (net', delivered)
         \<and> (\<forall>n. n = ''d'' \<and> n \<in> set (connected_peers c9_net (sender_id (messages c9_net ! 0)))
                   \<and> node_online c9_net n \<longrightarrow>
                (\<exists>q. map_of (message_queues c9_net) n = Some q
                    \<and> map_of (message_queues net') n = Some (q @ [0])))
         \<and> (\<forall>n. \<not> (n = ''d'' \<and> n \<in> set (connected_peers c9_net (sender_id (messages c9_net ! 0)))
                   \<and> node_online c9_net n) \<longrightarrow>
                map_of (message_queues net') n = map_of (message_queues c9_net) n)
         \<and> delivered = (''d'' \<in> set (connected_peers c9_net (sender_id (messages c9_net ! 0)))
                          \<and> node_online c9_net ''d'')"
    by (rule deliver_via_p2p_direct_only)
       (simp_all add: m0 len c9_message_def peers known)
  have near: "\<exists>net' delivered.
           deliver_via_p2p c9_net 1 = Inr (net', delivered)
         \<and> (\<forall>n. n = ''b'' \<and> n \<in> set (connected_peers c9_net (sender_id (messages c9_net ! 1)))
                   \<and> node_online c9_net n \<longrightarrow>
                (\<exists>q. map_of (message_queues c9_net) n = Some q
                    \<and> map_of (message_queues net') n = Some (q @ [1])))
         \<and> (\<forall>n. \<not> (n = ''b'' \<and> n \<in> set (connected_peers c9_net (sender_id (messages c9_net ! 1)))
                   \<and> node_online c9_net n) \<longrightarrow>
                map_of (message_queues net') n = map_of (message_queues c9_net) n)
         \<and> delivered = (''b'' \<in> set (connected_peers c9_net (sender_id (messages c9_net ! 1)))
                          \<and> node_online c9_net ''b'')"
    by (rule deliver_via_p2p_direct_only)
       (simp_all add: m1' len c9_message_def c9_direct_def peers known)
  have sender: "sender_id (messages c9_net ! 0) = ''a''" "sender_id (messages c9_net ! 1) = ''a''"
    by (simp_all add: m0 m1' c9_message_def c9_direct_def)
  from far c9_run_far
  have "map_of (message_queues c9_forwarded) ''b'' = map_of (message_queues c9_net) ''b''"
    and "map_of (message_queues c9_forwarded) ''c'' = map_of (message_queues c9_net) ''c''"
    and "map_of (message_queues c9_forwarded) ''d'' = map_of (message_queues c9_net) ''d''"
    by (auto simp: sender peers)
  moreover from near c9_run_near online
  have "map_of (message_queues c9_delivered) ''b'' = Some ([] @ [1])"
    and "map_of (message_queues c9_delivered) ''d'' = map_of (message_queues c9_net) ''d''"
    by (auto simp: sender peers known)
  ultimately show ?thesis using c9_run_far c9_run_near by simp
qed

section \<open>The network-wide Lamport counter\<close>





























































section \<open>\<^verbatim>\<open>demo/battlefield_server.py\<close>\<close>

datatype NetworkState = CENTRALIZED | P2P_FALLBACK | DEGRADED | ISOLATED

datatype NodeStatus = ONLINE | P2P_ONLY | OFFLINE | RECONNECTING

datatype ServerMessageType = MSG_CHAT | MSG_COMMAND | MSG_ALERT | MSG_STATUS | MSG_SYSTEM

text \<open>\<^verbatim>\<open>MessageType(value)\<close>: the member with that value; any other string raises \<^verbatim>\<open>ValueError\<close>.\<close>

definition parse_message_type :: "string \<Rightarrow> ServerMessageType option" where
  "parse_message_type v =
     (if v = ''chat'' then Some MSG_CHAT
      else if v = ''command'' then Some MSG_COMMAND
      else if v = ''alert'' then Some MSG_ALERT
      else if v = ''status'' then Some MSG_STATUS
      else if v = ''system'' then Some MSG_SYSTEM
      else None)"

text \<open>
  Positions are the integer coordinates the server gives its nodes; they never change.
  \<^verbatim>\<open>calculate_distance(p, q) <= 200\<close> is then the comparison of the squared distance with
  \<open>200\<^sup>2\<close>.
\<close>

record BattlefieldNode =
  n_id :: string
  n_name :: string
  n_rank :: string
  n_unit :: string
  n_position :: "int \<times> int"
  n_status :: NodeStatus
  n_last_seen :: string
  n_p2p_connections :: "string list"
  n_message_queue :: "string list"
  n_lamport_clock :: int

record BattlefieldMessage =
  msg_id :: string
  msg_sender_id :: string
  msg_content :: string
  msg_type :: ServerMessageType
  msg_timestamp :: string
  msg_lamport_clock :: int
  msg_recipients :: "string list"
  msg_encrypted :: bool
  msg_signature :: string
  msg_route_path :: "string list"
  msg_delivery_attempts :: int

record NetworkEvent =
  event_type :: string
  description :: string
  event_timestamp :: string
  affected_nodes :: "string list"
  severity :: string

record BattlefieldCommunicationServer =
  srv_online :: bool
  srv_network_state :: NetworkState
  srv_nodes :: "(string \<times> BattlefieldNode) list"
  srv_messages :: "BattlefieldMessage list"
  srv_events :: "NetworkEvent list"

definition demo_node :: "string \<Rightarrow> string \<Rightarrow> string \<Rightarrow> string \<Rightarrow> int \<times> int \<Rightarrow> string \<Rightarrow> string \<times> BattlefieldNode" where
  "demo_node nid nm rk un pos now =
     (nid, \<lparr>n_id = nid, n_name = nm, n_rank = rk, n_unit = un, n_position = pos,
            n_status = ONLINE, n_last_seen = now, n_p2p_connections = [], n_message_queue = [],
            n_lamport_clock = 0\<rparr>)"

text \<open>\<^verbatim>\<open>__init__\<close> with \<^verbatim>\<open>initialize_demo_nodes\<close>; \<open>now\<close> is the time of the call.\<close>

definition server_init :: "string \<Rightarrow> BattlefieldCommunicationServer" where
  "server_init now =
     \<lparr>srv_online = True, srv_network_state = CENTRALIZED,
      srv_nodes =
        [demo_node ''alpha_1'' ''Alpha Team Lead'' ''Sergeant'' ''Alpha Company'' (100, 150) now,
         demo_node ''bravo_1'' ''Bravo Scout'' ''Corporal'' ''Bravo Company'' (300, 200) now,
         demo_node ''charlie_1'' ''Charlie Support'' ''Private'' ''Charlie Company'' (200, 350) now,
         demo_node ''delta_1'' ''Delta Command'' ''Lieutenant'' ''Delta Command'' (450, 180) now,
         demo_node ''echo_1'' ''Echo Medic'' ''Corporal'' ''Echo Support'' (350, 100) now],
      srv_messages = [], srv_events = []\<rparr>"

definition within_range :: "int \<times> int \<Rightarrow> int \<times> int \<Rightarrow> bool" where
  "within_range p q \<longleftrightarrow> (fst p - fst q)\<^sup>2 + (snd p - snd q)\<^sup>2 \<le> 200\<^sup>2"

subsection \<open>Routing\<close>

definition route_message_centralized :: "BattlefieldMessage \<Rightarrow> BattlefieldMessage" where
  "route_message_centralized message = message\<lparr>msg_route_path := [''central_server'']\<rparr>"

text \<open>
  The flood of \<^verbatim>\<open>route_message_p2p\<close>. Its state is the set \<^verbatim>\<open>visited\<close> (a list here: only
  membership is asked), the list \<^verbatim>\<open>next_hops\<close> and the message's \<^verbatim>\<open>route_path\<close>.
  \<open>scan_targets\<close> is the innermost loop over \<^verbatim>\<open>self.nodes.items()\<close>, \<open>scan_hops\<close> the loop
  over \<^verbatim>\<open>current_hops\<close>, \<open>flood\<close> the loop over the hops.
\<close>

type_synonym flood_state = "string list \<times> string list \<times> string list"

fun scan_targets :: "BattlefieldNode \<Rightarrow> (string \<times> BattlefieldNode) list \<Rightarrow> flood_state \<Rightarrow> flood_state" where
  "scan_targets node [] st = st"
| "scan_targets node ((target_id, target_node) # rest) (visited, next_hops, route_path) =
     (if target_id \<in> set visited \<or> n_status target_node = OFFLINE
        then scan_targets node rest (visited, next_hops, route_path)
      else if within_range (n_position node) (n_position target_node)
        then scan_targets node rest
               (target_id # visited, next_hops @ [target_id], route_path @ [target_id])
      else scan_targets node rest (visited, next_hops, route_path))"

fun scan_hops :: "(string \<times> BattlefieldNode) list \<Rightarrow> string list \<Rightarrow> flood_state \<Rightarrow> flood_state" where
  "scan_hops all_nodes [] st = st"
| "scan_hops all_nodes (current_node # rest) st =
     (case map_of all_nodes current_node of
        None \<Rightarrow> scan_hops all_nodes rest st
      | Some node \<Rightarrow>
          if n_status node = OFFLINE then scan_hops all_nodes rest st
          else scan_hops all_nodes rest (scan_targets node all_nodes st))"

fun flood :: "nat \<Rightarrow> (string \<times> BattlefieldNode) list \<Rightarrow> string list \<Rightarrow> string list \<Rightarrow> string list \<Rightarrow> string list" where
  "flood 0 all_nodes current_hops visited route_path = route_path"
| "flood (Suc hops) all_nodes current_hops visited route_path =
     (case scan_hops all_nodes current_hops (visited, [], route_path) of
        (visited', next_hops, route_path') \<Rightarrow>
          if next_hops = [] then route_path'
          else flood hops all_nodes next_hops visited' route_path')"

definition max_hops_p2p :: nat where
  "max_hops_p2p = 3"

definition route_message_p2p :: "BattlefieldCommunicationServer \<Rightarrow> BattlefieldMessage \<Rightarrow> string \<Rightarrow> BattlefieldMessage" where
  "route_message_p2p s message sender =
     message\<lparr>msg_recipients :=
               (if msg_recipients message = [] then map fst (srv_nodes s) else msg_recipients message),
             msg_route_path :=
               flood max_hops_p2p (srv_nodes s) [sender] [sender] (msg_route_path message)\<rparr>"

subsection \<open>\<^verbatim>\<open>handle_send_message\<close>\<close>

text \<open>
  The frame of a \<^verbatim>\<open>send_message\<close> command, with the defaults of \<^verbatim>\<open>data.get\<close> applied by
  the caller of the model: \<open>frame_sender\<close> is \<open>None\<close> when the key is missing. What the
  call draws from outside is the fresh id, the time and the random signature suffix.
\<close>

record send_frame =
  frame_sender :: "string option"
  frame_content :: string
  frame_message_type :: string
  frame_recipients :: "string list"

record frame_env =
  fenv_uuid :: string
  fenv_now :: string
  fenv_signature :: string

datatype server_error = ValueError

text \<open>
  The result is the server afterwards and the message created, if one was. The
  broadcast to the connected clients changes nothing of the state modelled here.
\<close>

definition handle_send_message :: "BattlefieldCommunicationServer \<Rightarrow> send_frame \<Rightarrow> frame_env \<Rightarrow> server_error + BattlefieldCommunicationServer \<times> BattlefieldMessage option" where
  "handle_send_message s frame env =
     (case parse_message_type (frame_message_type frame) of
        None \<Rightarrow> Inl ValueError
      | Some mtype \<Rightarrow>
          (case frame_sender frame of
             None \<Rightarrow> Inr (s, None)
           | Some sender \<Rightarrow>
               if sender = [] then Inr (s, None)
               else
                 (case map_of (srv_nodes s) sender of
                    None \<Rightarrow> Inr (s, None)
                  | Some node \<Rightarrow>
                      let message =
                            \<lparr>msg_id = fenv_uuid env, msg_sender_id = sender,
                             msg_content = frame_content frame, msg_type = mtype,
                             msg_timestamp = fenv_now env,
                             msg_lamport_clock = n_lamport_clock node + 1,
                             msg_recipients = frame_recipients frame, msg_encrypted = True,
                             msg_signature = fenv_signature env, msg_route_path = [],
                             msg_delivery_attempts = 0\<rparr>;
                          s1 = s\<lparr>srv_nodes := AList.update sender
                                   (node\<lparr>n_lamport_clock := msg_lamport_clock message\<rparr>) (srv_nodes s)\<rparr>;
                          routed =
                            (if srv_online s1 \<and> srv_network_state s1 = CENTRALIZED
                             then route_message_centralized message
                             else route_message_p2p s1 message sender)
                      in Inr (s1\<lparr>srv_messages := srv_messages s1 @ [routed]\<rparr>, Some routed))))"

subsection \<open>Failure, recovery and resynchronisation\<close>

definition add_event :: "BattlefieldCommunicationServer \<Rightarrow> string \<Rightarrow> string \<Rightarrow> string \<Rightarrow> string list \<Rightarrow> string \<Rightarrow> BattlefieldCommunicationServer" where
  "add_event s etype text now affected sev =
     s\<lparr>srv_events := srv_events s @
        [\<lparr>event_type = etype, description = text, event_timestamp = now,
          affected_nodes = affected, severity = sev\<rparr>]\<rparr>"

definition set_status_where :: "NodeStatus \<Rightarrow> NodeStatus \<Rightarrow> (string \<times> BattlefieldNode) list \<Rightarrow> (string \<times> BattlefieldNode) list" where
  "set_status_where old new ns =
     map (\<lambda>(k, node). (k, if n_status node = old then node\<lparr>n_status := new\<rparr> else node)) ns"

definition simulate_srv_failure :: "BattlefieldCommunicationServer \<Rightarrow> string \<Rightarrow> BattlefieldCommunicationServer" where
  "simulate_srv_failure s now =
     (if \<not> srv_online s then s
      else add_event
             (s\<lparr>srv_online := False, srv_network_state := P2P_FALLBACK,
                srv_nodes := set_status_where ONLINE P2P_ONLY (srv_nodes s)\<rparr>)
             ''server_failure''
             ''Central communication server has failed. Switching to P2P mode.''
             now (map fst (srv_nodes s)) ''critical'')"

text \<open>\<^verbatim>\<open>max(...)\<close> over the clocks; it raises \<^verbatim>\<open>ValueError\<close> when there is no node.\<close>

fun max_list :: "int list \<Rightarrow> int" where
  "max_list [] = 0"
| "max_list [x] = x"
| "max_list (x # y # r) = max x (max_list (y # r))"

definition synchronize_network :: "BattlefieldCommunicationServer \<Rightarrow> server_error + BattlefieldCommunicationServer" where
  "synchronize_network s =
     (if srv_nodes s = [] then Inl ValueError
      else
        let max_clock = max_list (map (\<lambda>(k, node). n_lamport_clock node) (srv_nodes s))
        in Inr (s\<lparr>srv_nodes :=
                  map (\<lambda>(k, node). (k, node\<lparr>n_lamport_clock := max_clock + 1, n_message_queue := []\<rparr>))
                      (srv_nodes s)\<rparr>))"

definition handle_force_sync :: "BattlefieldCommunicationServer \<Rightarrow> string \<Rightarrow> server_error + BattlefieldCommunicationServer" where
  "handle_force_sync s now =
     (case synchronize_network s of
        Inl e \<Rightarrow> Inl e
      | Inr s' \<Rightarrow>
          Inr (add_event s' ''manual_sync'' ''Manual network synchronization completed''
                 now (map fst (srv_nodes s')) ''info''))"

text \<open>
  \<^verbatim>\<open>simulate_server_recovery\<close> sleeps between switching the nodes back and the
  resynchronisation, and other commands may run meanwhile: it is two steps.
\<close>

definition server_recovery_begin :: "BattlefieldCommunicationServer \<Rightarrow> BattlefieldCommunicationServer" where
  "server_recovery_begin s =
     s\<lparr>srv_online := True, srv_network_state := CENTRALIZED,
       srv_nodes := set_status_where P2P_ONLY ONLINE (srv_nodes s)\<rparr>"

definition server_recovery_finish :: "BattlefieldCommunicationServer \<Rightarrow> string \<Rightarrow> server_error + BattlefieldCommunicationServer" where
  "server_recovery_finish s now =
     (case synchronize_network s of
        Inl e \<Rightarrow> Inl e
      | Inr s' \<Rightarrow>
          Inr (add_event s' ''server_recovery''
                 ''Central server recovered. Network synchronized successfully.''
                 now (map fst (srv_nodes s')) ''info''))"

text \<open>The whole of \<^verbatim>\<open>simulate_server_recovery\<close> when nothing runs during its sleep.\<close>

definition simulate_srv_recovery :: "BattlefieldCommunicationServer \<Rightarrow> string \<Rightarrow> server_error + BattlefieldCommunicationServer" where
  "simulate_srv_recovery s now =
     (if srv_online s then Inr s else server_recovery_finish (server_recovery_begin s) now)"

text \<open>
  \<^verbatim>\<open>simulate_node_dropout\<close> with the node that \<^verbatim>\<open>random.choice\<close> picked among those
  \<^verbatim>\<open>ONLINE\<close> or \<^verbatim>\<open>P2P_ONLY\<close>, and the recovery it schedules for later.
\<close>

definition node_dropout :: "BattlefieldCommunicationServer \<Rightarrow> string \<Rightarrow> string \<Rightarrow> BattlefieldCommunicationServer" where
  "node_dropout s nid now =
     (case map_of (srv_nodes s) nid of
        None \<Rightarrow> s
      | Some node \<Rightarrow>
          if n_status node \<in> {ONLINE, P2P_ONLY}
          then add_event
                 (s\<lparr>srv_nodes := AList.update nid (node\<lparr>n_status := OFFLINE\<rparr>) (srv_nodes s)\<rparr>)
                 ''node_dropout'' (n_name node @ '' ('' @ n_rank node @ '') has gone offline'')
                 now [n_id node] ''warning''
          else s)"

definition node_recovery :: "BattlefieldCommunicationServer \<Rightarrow> string \<Rightarrow> string \<Rightarrow> BattlefieldCommunicationServer" where
  "node_recovery s nid now =
     (case map_of (srv_nodes s) nid of
        None \<Rightarrow> s
      | Some node \<Rightarrow>
          add_event
            (s\<lparr>srv_nodes := AList.update nid
                 (node\<lparr>n_status := (if srv_online s then ONLINE else P2P_ONLY), n_last_seen := now\<rparr>)
                 (srv_nodes s)\<rparr>)
            ''node_recovery'' (n_name node @ '' has reconnected to the network'')
            now [n_id node] ''info'')"

definition network_partition :: "BattlefieldCommunicationServer \<Rightarrow> string \<Rightarrow> string \<Rightarrow> BattlefieldCommunicationServer" where
  "network_partition s text now =
     (if length (srv_nodes s) < 2 then s
      else add_event s ''network_partition'' text now (map fst (srv_nodes s)) ''critical'')"

text \<open>The states of a running server: any interleaving of the commands from its start.\<close>

inductive server_reachable :: "BattlefieldCommunicationServer \<Rightarrow> bool" where
  start: "server_reachable (server_init now)"
| send: "server_reachable s \<Longrightarrow> handle_send_message s frame env = Inr (s', created)
         \<Longrightarrow> server_reachable s'"
| failure: "server_reachable s \<Longrightarrow> server_reachable (simulate_srv_failure s now)"
| recovery_begin: "server_reachable s \<Longrightarrow> \<not> srv_online s \<Longrightarrow> server_reachable (server_recovery_begin s)"
| recovery_finish: "server_reachable s \<Longrightarrow> server_recovery_finish s now = Inr s'
         \<Longrightarrow> server_reachable s'"
| dropout: "server_reachable s \<Longrightarrow> server_reachable (node_dropout s nid now)"
| recovered: "server_reachable s \<Longrightarrow> server_reachable (node_recovery s nid now)"
| partition: "server_reachable s \<Longrightarrow> server_reachable (network_partition s text now)"
| force_sync: "server_reachable s \<Longrightarrow> handle_force_sync s now = Inr s' \<Longrightarrow> server_reachable s'"

section \<open>Routing stays within the nodes\<close>

text \<open>
  What the flood keeps true of its state: the path has no duplicates, it lists visited
  nodes only, all of them known, and never a node of \<open>avoid\<close> (the visited nodes it
  started from).
\<close>

definition flood_ok :: "(string \<times> BattlefieldNode) list \<Rightarrow> string set \<Rightarrow> string list \<Rightarrow> string list \<Rightarrow> bool" where
  "flood_ok all_nodes avoid visited route_path \<longleftrightarrow>
     distinct route_path
   \<and> set route_path \<subseteq> set visited
   \<and> avoid \<subseteq> set visited
   \<and> set route_path \<subseteq> fst ` set all_nodes - avoid"

lemma scan_targets_ok:
  assumes "scan_targets node targets (visited, next_hops, route_path) = (visited', next_hops', route_path')"
    and "flood_ok all_nodes avoid visited route_path"
    and "fst ` set targets \<subseteq> fst ` set all_nodes"
  shows "flood_ok all_nodes avoid visited' route_path'"
  using assms
proof (induction targets arbitrary: visited next_hops route_path)
  case Nil
  then show ?case by simp
next
  case (Cons t rest)
  obtain target_id target_node where t: "t = (target_id, target_node)" by (cases t)
  show ?case
  proof (cases "target_id \<in> set visited \<or> n_status target_node = OFFLINE
                \<or> \<not> within_range (n_position node) (n_position target_node)")
    case True
    with Cons.prems(1) t
    have "scan_targets node rest (visited, next_hops, route_path) = (visited', next_hops', route_path')"
      by (auto split: if_splits)
    from Cons.IH [OF this Cons.prems(2)] Cons.prems(3) show ?thesis by simp
  next
    case False
    with Cons.prems(1) t
    have rec: "scan_targets node rest
                 (target_id # visited, next_hops @ [target_id], route_path @ [target_id])
               = (visited', next_hops', route_path')"
      by auto
    from False Cons.prems(2,3) t
    have "flood_ok all_nodes avoid (target_id # visited) (route_path @ [target_id])"
      by (auto simp: flood_ok_def)
    from Cons.IH [OF rec this] Cons.prems(3) show ?thesis by simp
  qed
qed

lemma scan_hops_ok:
  assumes "scan_hops all_nodes current_hops (visited, next_hops, route_path)
           = (visited', next_hops', route_path')"
    and "flood_ok all_nodes avoid visited route_path"
  shows "flood_ok all_nodes avoid visited' route_path'"
  using assms
proof (induction current_hops arbitrary: visited next_hops route_path)
  case Nil
  then show ?case by simp
next
  case (Cons current_node rest)
  show ?case
  proof (cases "map_of all_nodes current_node")
    case None
    with Cons.prems(1)
    have "scan_hops all_nodes rest (visited, next_hops, route_path) = (visited', next_hops', route_path')"
      by simp
    from Cons.IH [OF this Cons.prems(2)] show ?thesis .
  next
    case (Some node)
    show ?thesis
    proof (cases "n_status node = OFFLINE")
      case True
      with Cons.prems(1) Some
      have "scan_hops all_nodes rest (visited, next_hops, route_path) = (visited', next_hops', route_path')"
        by simp
      from Cons.IH [OF this Cons.prems(2)] show ?thesis .
    next
      case False
      obtain v1 n1 p1 where scan: "scan_targets node all_nodes (visited, next_hops, route_path) = (v1, n1, p1)"
        by (cases "scan_targets node all_nodes (visited, next_hops, route_path)")
      with Cons.prems(1) Some False
      have rec: "scan_hops all_nodes rest (v1, n1, p1) = (visited', next_hops', route_path')"
        by simp
      from scan_targets_ok [OF scan Cons.prems(2)] have "flood_ok all_nodes avoid v1 p1" by simp
      from Cons.IH [OF rec this] show ?thesis .
    qed
  qed
qed

lemma flood_ok_result:
  assumes "flood_ok all_nodes avoid visited route_path"
  shows "distinct (flood hops all_nodes current_hops visited route_path)
       \<and> set (flood hops all_nodes current_hops visited route_path) \<subseteq> fst ` set all_nodes - avoid"
  using assms
proof (induction hops arbitrary: current_hops visited route_path)
  case 0
  then show ?case by (simp add: flood_ok_def)
next
  case (Suc hops)
  obtain v1 n1 p1 where scan: "scan_hops all_nodes current_hops (visited, [], route_path) = (v1, n1, p1)"
    by (cases "scan_hops all_nodes current_hops (visited, [], route_path)")
  from scan_hops_ok [OF scan Suc.prems] have ok: "flood_ok all_nodes avoid v1 p1" .
  show ?case
  proof (cases "n1 = []")
    case True
    with scan ok show ?thesis by (simp add: flood_ok_def)
  next
    case False
    with scan Suc.IH [OF ok, of n1] show ?thesis by simp
  qed
qed

text \<open>No command adds or removes a node: a running server has the five demo nodes.\<close>

definition demo_ids :: "string list" where
  "demo_ids = [''alpha_1'', ''bravo_1'', ''charlie_1'', ''delta_1'', ''echo_1'']"

lemma set_status_where_keys: "map fst (set_status_where old new ns) = map fst ns"
  by (induction ns) (auto simp: set_status_where_def)

lemma update_keys_known:
  "map_of ns k = Some v \<Longrightarrow> map fst (AList.update k v' ns) = map fst ns"
  by (induction ns) (auto split: if_splits)

lemma synchronize_network_keys:
  "synchronize_network s = Inr s' \<Longrightarrow> map fst (srv_nodes s') = map fst (srv_nodes s)"
  by (auto simp: synchronize_network_def Let_def comp_def case_prod_beta split: if_splits)

lemma handle_send_message_keys:
  "handle_send_message s frame env = Inr (s', created) \<Longrightarrow> map fst (srv_nodes s') = map fst (srv_nodes s)"
  by (auto simp: handle_send_message_def Let_def update_keys_known split: option.splits if_splits)

lemma server_reachable_keys:
  assumes "server_reachable s"
  shows "map fst (srv_nodes s) = demo_ids"
  using assms
proof (induction rule: server_reachable.induct)
  case (start now)
  show ?case by (simp add: server_init_def demo_node_def demo_ids_def)
next
  case (send s frame env s' created)
  then show ?case by (simp add: handle_send_message_keys)
next
  case (failure s now)
  then show ?case by (simp add: simulate_srv_failure_def add_event_def set_status_where_keys)
next
  case (recovery_begin s)
  then show ?case by (simp add: server_recovery_begin_def set_status_where_keys)
next
  case (recovery_finish s now s')
  then show ?case
    by (auto simp: server_recovery_finish_def add_event_def split: sum.splits
             dest: synchronize_network_keys)
next
  case (dropout s nid now)
  then show ?case
    by (auto simp: node_dropout_def add_event_def update_keys_known split: option.splits)
next
  case (recovered s nid now)
  then show ?case
    by (auto simp: node_recovery_def add_event_def update_keys_known split: option.splits)
next
  case (partition s descr now)
  then show ?case by (simp add: network_partition_def add_event_def)
next
  case (force_sync s now s')
  then show ?case
    by (auto simp: handle_force_sync_def add_event_def split: sum.splits
             dest: synchronize_network_keys)
qed

lemma route_path_of_send:
  assumes "handle_send_message s frame env = Inr (s', Some message)"
  shows "msg_route_path message = [''central_server'']
       \<or> (\<exists>sender nodes'. map fst nodes' = map fst (srv_nodes s) \<and> sender \<in> fst ` set nodes'
             \<and> msg_route_path message = flood max_hops_p2p nodes' [sender] [sender] [])"
proof -
  from assms obtain mtype sender node where
    parsed: "parse_message_type (frame_message_type frame) = Some mtype"
    and from_sender: "frame_sender frame = Some sender" "sender \<noteq> []"
    and sender: "map_of (srv_nodes s) sender = Some node"
    by (auto simp: handle_send_message_def Let_def split: option.splits if_splits)
  let ?nodes' = "AList.update sender (node\<lparr>n_lamport_clock := n_lamport_clock node + 1\<rparr>) (srv_nodes s)"
  from sender have "sender \<in> fst ` set (srv_nodes s)"
    by (metis domI dom_map_of_conv_image_fst)
  moreover have keys: "map fst ?nodes' = map fst (srv_nodes s)"
    by (rule update_keys_known [OF sender])
  ultimately have known: "sender \<in> fst ` set ?nodes'"
    by (metis list.set_map)
  show ?thesis
  proof (cases "srv_online s \<and> srv_network_state s = CENTRALIZED")
    case True
    with assms parsed from_sender sender show ?thesis
      by (auto simp: handle_send_message_def Let_def route_message_centralized_def)
  next
    case False
    with assms parsed from_sender sender
    have "msg_route_path message = flood max_hops_p2p ?nodes' [sender] [sender] []"
      by (auto simp: handle_send_message_def Let_def route_message_p2p_def)
    with keys known show ?thesis by blast
  qed
qed

text \<open>
  C7. Every message that a running server routes has a route path of at most
  \<open>max_hops + 1\<close> entries, with \<open>max_hops = 3\<close> the hop limit of the flood, and no node id
  twice in it.
\<close>

theorem route_path_bounded:
  assumes "server_reachable s"
    and "handle_send_message s frame env = Inr (s', Some message)"
  shows "length (msg_route_path message) \<le> max_hops_p2p + 1
       \<and> distinct (msg_route_path message)"
proof -
  from route_path_of_send [OF assms(2)]
  consider (central) "msg_route_path message = [''central_server'']"
    | (p2p) sender nodes' where "map fst nodes' = map fst (srv_nodes s)" "sender \<in> fst ` set nodes'"
        "msg_route_path message = flood max_hops_p2p nodes' [sender] [sender] []"
    by blast
  then show ?thesis
  proof cases
    case central
    then show ?thesis by (simp add: max_hops_p2p_def)
  next
    case p2p
    have "flood_ok nodes' {sender} [sender] []"
      by (simp add: flood_ok_def)
    from flood_ok_result [OF this, of max_hops_p2p "[sender]"] p2p(3)
    have d: "distinct (msg_route_path message)"
      and sub: "set (msg_route_path message) \<subseteq> fst ` set nodes' - {sender}"
      by simp_all
    from p2p(1) server_reachable_keys [OF assms(1)]
    have keys: "fst ` set nodes' = set demo_ids"
      by (metis list.set_map)
    have "card (set demo_ids) = 5"
      by (simp add: demo_ids_def)
    with keys p2p(2) have "card (fst ` set nodes' - {sender}) = 4"
      by simp
    moreover from sub have "card (set (msg_route_path message)) \<le> card (fst ` set nodes' - {sender})"
      by (intro card_mono) simp_all
    moreover from d have "card (set (msg_route_path message)) = length (msg_route_path message)"
      by (rule distinct_card)
    ultimately show ?thesis using d by (simp add: max_hops_p2p_def)
  qed
qed

text \<open>The server after a server failure; then \<open>bravo_1\<close> broadcasts.\<close>

definition c7_server :: BattlefieldCommunicationServer where
  "c7_server = simulate_srv_failure (server_init ''t0'') ''t1''"

definition c7_frame :: send_frame where
  "c7_frame =
     \<lparr>frame_sender = Some ''bravo_1'', frame_content = ''hold'', frame_message_type = ''command'',
      frame_recipients = []\<rparr>"

definition c7_env :: frame_env where
  "c7_env = \<lparr>fenv_uuid = ''u1'', fenv_now = ''t2'', fenv_signature = ''sig_1000''\<rparr>"

definition c7_message :: BattlefieldMessage where
  "c7_message =
     \<lparr>msg_id = ''u1'', msg_sender_id = ''bravo_1'', msg_content = ''hold'', msg_type = MSG_COMMAND,
      msg_timestamp = ''t2'', msg_lamport_clock = 1, msg_recipients = demo_ids,
      msg_encrypted = True, msg_signature = ''sig_1000'',
      msg_route_path = [''charlie_1'', ''delta_1'', ''echo_1''], msg_delivery_attempts = 0\<rparr>"

definition c7_after :: BattlefieldCommunicationServer where
  "c7_after =
     c7_server\<lparr>srv_nodes :=
                  map (\<lambda>(k, node). (k, if k = ''bravo_1'' then node\<lparr>n_lamport_clock := 1\<rparr> else node))
                      (srv_nodes c7_server),
               srv_messages := [c7_message]\<rparr>"

lemma c7_sent: "handle_send_message c7_server c7_frame c7_env = Inr (c7_after, Some c7_message)"
  by code_simp

theorem route_path_bounded_witness:
  "server_reachable c7_server
   \<and> handle_send_message c7_server c7_frame c7_env = Inr (c7_after, Some c7_message)
   \<and> msg_route_path c7_message = [''charlie_1'', ''delta_1'', ''echo_1'']
   \<and> length (msg_route_path c7_message) \<le> max_hops_p2p + 1
   \<and> distinct (msg_route_path c7_message)"
proof -
  have reach: "server_reachable c7_server"
    unfolding c7_server_def by (intro server_reachable.failure server_reachable.start)
  from route_path_bounded [OF reach c7_sent] reach c7_sent show ?thesis
    by (simp add: c7_message_def)
qed

section \<open>Resynchronisation\<close>

lemma max_list_Max: "xs \<noteq> [] \<Longrightarrow> max_list xs = Max (set xs)"
proof (induction xs rule: max_list.induct)
  case 1
  then show ?case by simp
next
  case (2 x)
  show ?case by simp
next
  case (3 x y r)
  then have "max_list (y # r) = Max (set (y # r))" by simp
  then show ?case by simp
qed

text \<open>The largest Lamport clock over all nodes of the server.\<close>

definition L_max :: "BattlefieldCommunicationServer \<Rightarrow> int" where
  "L_max s = Max (n_lamport_clock ` snd ` set (srv_nodes s))"

text \<open>
  \<open>resynced s s'\<close>: every node that takes part (its status in \<open>s\<close> is \<open>ONLINE\<close>, \<open>P2P_ONLY\<close>
  or \<open>RECONNECTING\<close>) has, in \<open>s'\<close>, the largest clock of \<open>s\<close> plus one.
\<close>

definition resynced :: "BattlefieldCommunicationServer \<Rightarrow> BattlefieldCommunicationServer \<Rightarrow> bool" where
  "resynced s s' \<longleftrightarrow>
     (\<forall>nid node. map_of (srv_nodes s) nid = Some node
          \<and> n_status node \<in> {ONLINE, P2P_ONLY, RECONNECTING} \<longrightarrow>
        (\<exists>node'. map_of (srv_nodes s') nid = Some node'
                \<and> n_lamport_clock node' = L_max s + 1))"

lemma map_of_map_nodes:
  "map_of (map (\<lambda>(k, node). (k, f node)) ns) nid = map_option f (map_of ns nid)"
  by (induction ns) auto

lemma max_clock_L_max:
  assumes "srv_nodes s \<noteq> []"
  shows "max_list (map (\<lambda>(k, node). n_lamport_clock node) (srv_nodes s)) = L_max s"
proof -
  have "map (\<lambda>(k, node). n_lamport_clock node) (srv_nodes s) = map (\<lambda>p. n_lamport_clock (snd p)) (srv_nodes s)"
    by (simp add: case_prod_beta)
  moreover have "set (map (\<lambda>p. n_lamport_clock (snd p)) (srv_nodes s)) = n_lamport_clock ` snd ` set (srv_nodes s)"
    by (simp add: image_image)
  moreover from assms have "map (\<lambda>p. n_lamport_clock (snd p)) (srv_nodes s) \<noteq> []"
    by simp
  ultimately show ?thesis
    unfolding L_max_def using max_list_Max by metis
qed

lemma synchronize_network_clocks:
  assumes "srv_nodes s \<noteq> []"
  obtains s' where "synchronize_network s = Inr s'"
    and "srv_nodes s' =
           map (\<lambda>(k, node). (k, node\<lparr>n_lamport_clock := L_max s + 1, n_message_queue := []\<rparr>)) (srv_nodes s)"
  using assms max_clock_L_max [OF assms] by (simp add: synchronize_network_def)

lemma synchronize_network_resynced:
  assumes "synchronize_network s = Inr s'"
  shows "\<forall>nid node. map_of (srv_nodes s) nid = Some node \<longrightarrow>
           (\<exists>node'. map_of (srv_nodes s') nid = Some node' \<and> n_lamport_clock node' = L_max s + 1)"
proof -
  from assms have nodes: "srv_nodes s \<noteq> []"
    by (auto simp: synchronize_network_def split: if_splits)
  from synchronize_network_clocks [OF nodes] assms have
    "srv_nodes s' =
       map (\<lambda>(k, node). (k, node\<lparr>n_lamport_clock := L_max s + 1, n_message_queue := []\<rparr>)) (srv_nodes s)"
    by auto
  then show ?thesis
    by (simp add: map_of_map_nodes)
qed

lemma map_of_set_status_where:
  "map_of (set_status_where old new ns) nid =
     map_option (\<lambda>node. if n_status node = old then node\<lparr>n_status := new\<rparr> else node) (map_of ns nid)"
  unfolding set_status_where_def by (rule map_of_map_nodes)

lemma L_max_recovery_begin: "L_max (server_recovery_begin s) = L_max s"
proof -
  have "map (\<lambda>p. n_lamport_clock (snd p)) (set_status_where P2P_ONLY ONLINE ns) = map (\<lambda>p. n_lamport_clock (snd p)) ns"
    for ns
    by (induction ns) (auto simp: set_status_where_def)
  then have "set (map (\<lambda>p. n_lamport_clock (snd p)) (set_status_where P2P_ONLY ONLINE (srv_nodes s)))
           = set (map (\<lambda>p. n_lamport_clock (snd p)) (srv_nodes s))"
    by simp
  then have "n_lamport_clock ` snd ` set (set_status_where P2P_ONLY ONLINE (srv_nodes s))
           = n_lamport_clock ` snd ` set (srv_nodes s)"
    by (simp only: set_map image_image)
  then show ?thesis
    by (simp add: L_max_def server_recovery_begin_def)
qed

lemma resynced_events: "resynced s s' \<Longrightarrow> resynced s (add_event s' etype descr now affected sev)"
  by (simp add: resynced_def add_event_def)

lemma force_sync_resynced:
  assumes "srv_nodes s \<noteq> []"
  shows "\<exists>s'. handle_force_sync s now = Inr s' \<and> resynced s s'"
proof -
  from synchronize_network_clocks [OF assms] obtain s1 where sync: "synchronize_network s = Inr s1"
    by blast
  from synchronize_network_resynced [OF sync] have "resynced s s1"
    by (simp add: resynced_def)
  then have "resynced s (add_event s1 ''manual_sync'' ''Manual network synchronization completed''
               now (map fst (srv_nodes s1)) ''info'')"
    by (rule resynced_events)
  with sync show ?thesis
    by (simp add: handle_force_sync_def)
qed

lemma recovery_finish_resynced:
  assumes "srv_nodes s \<noteq> []"
  shows "\<exists>s'. server_recovery_finish s now = Inr s' \<and> resynced s s'"
proof -
  from synchronize_network_clocks [OF assms] obtain s1 where sync: "synchronize_network s = Inr s1"
    by blast
  from synchronize_network_resynced [OF sync] have "resynced s s1"
    by (simp add: resynced_def)
  then have "resynced s (add_event s1 ''server_recovery''
                 ''Central server recovered. Network synchronized successfully.''
                 now (map fst (srv_nodes s1)) ''info'')"
    by (rule resynced_events)
  with sync show ?thesis
    by (simp add: server_recovery_finish_def)
qed

lemma recovery_resynced:
  assumes "srv_nodes s \<noteq> []" and "\<not> srv_online s"
  shows "\<exists>s'. simulate_srv_recovery s now = Inr s' \<and> resynced s s'"
proof -
  let ?b = "server_recovery_begin s"
  from assms(1) have "srv_nodes ?b \<noteq> []"
    by (simp add: server_recovery_begin_def set_status_where_def)
  from recovery_finish_resynced [OF this] obtain s' where
    run: "server_recovery_finish ?b now = Inr s'" and sync: "resynced ?b s'"
    by blast
  have "resynced s s'"
    unfolding resynced_def
  proof (intro allI impI)
    fix nid node
    assume a: "map_of (srv_nodes s) nid = Some node \<and> n_status node \<in> {ONLINE, P2P_ONLY, RECONNECTING}"
    let ?node = "if n_status node = P2P_ONLY then node\<lparr>n_status := ONLINE\<rparr> else node"
    from a have "map_of (srv_nodes ?b) nid = Some ?node"
      by (simp add: server_recovery_begin_def map_of_set_status_where)
    moreover from a have "n_status ?node \<in> {ONLINE, P2P_ONLY, RECONNECTING}"
      by auto
    ultimately have "\<exists>node'. map_of (srv_nodes s') nid = Some node'
        \<and> n_lamport_clock node' = L_max ?b + 1"
      using sync unfolding resynced_def by blast
    then show "\<exists>node'. map_of (srv_nodes s') nid = Some node' \<and> n_lamport_clock node' = L_max s + 1"
      by (simp add: L_max_recovery_begin)
  qed
  with run assms(2) show ?thesis
    by (simp add: simulate_srv_recovery_def)
qed

lemma server_reachable_nodes: "server_reachable s \<Longrightarrow> srv_nodes s \<noteq> []"
  using server_reachable_keys [of s] by (auto simp: demo_ids_def)

text \<open>
  C8. In every state of a running server the resynchronisation returns, and every
  participating node, one whose status is \<open>ONLINE\<close>, \<open>P2P_ONLY\<close> or \<open>RECONNECTING\<close>, ends
  with its Lamport clock equal to the largest clock over all nodes before, plus one: for
  \<^verbatim>\<open>synchronize_network\<close> itself, for \<^verbatim>\<open>force_sync\<close>, for the part of the server recovery
  that runs after its sleep, from the state it finds then, and for the whole recovery of
  a server that is down when nothing else runs during the sleep.
\<close>

theorem resync_clock_advance:
  assumes "server_reachable s"
  shows "(\<exists>s'. synchronize_network s = Inr s' \<and> resynced s s')
       \<and> (\<exists>s'. handle_force_sync s now = Inr s' \<and> resynced s s')
       \<and> (\<exists>s'. server_recovery_finish s now = Inr s' \<and> resynced s s')
       \<and> (\<not> srv_online s \<longrightarrow> (\<exists>s'. simulate_srv_recovery s now = Inr s' \<and> resynced s s'))"
proof -
  from assms have nodes: "srv_nodes s \<noteq> []"
    by (rule server_reachable_nodes)
  from synchronize_network_clocks [OF nodes] obtain s1 where sync: "synchronize_network s = Inr s1"
    by blast
  from synchronize_network_resynced [OF sync] have "resynced s s1"
    by (simp add: resynced_def)
  with sync have "\<exists>s'. synchronize_network s = Inr s' \<and> resynced s s'"
    by blast
  with force_sync_resynced [OF nodes] recovery_finish_resynced [OF nodes] recovery_resynced [OF nodes]
  show ?thesis
    by blast
qed

text \<open>The server of the routing example after the send: \<open>bravo_1\<close> has clock 1, the server is down.\<close>

definition clocks_of :: "BattlefieldCommunicationServer \<Rightarrow> (string \<times> int) list" where
  "clocks_of s = map (\<lambda>(k, node). (k, n_lamport_clock node)) (srv_nodes s)"

definition c8_clocks :: "(string \<times> int) list" where
  "c8_clocks = [(''alpha_1'', 2), (''bravo_1'', 2), (''charlie_1'', 2), (''delta_1'', 2), (''echo_1'', 2)]"

lemma c8_before:
  "clocks_of c7_after =
     [(''alpha_1'', 0), (''bravo_1'', 1), (''charlie_1'', 0), (''delta_1'', 0), (''echo_1'', 0)]"
  by code_simp

lemma c8_statuses:
  "map (\<lambda>(k, node). n_status node) (srv_nodes c7_after) = [P2P_ONLY, P2P_ONLY, P2P_ONLY, P2P_ONLY, P2P_ONLY]"
  by code_simp

lemma c8_synced: "map_sum id clocks_of (synchronize_network c7_after) = Inr c8_clocks"
  by code_simp

lemma c8_forced: "map_sum id clocks_of (handle_force_sync c7_after ''t3'') = Inr c8_clocks"
  by code_simp

lemma c8_finished: "map_sum id clocks_of (server_recovery_finish c7_after ''t3'') = Inr c8_clocks"
  by code_simp

lemma c8_recovered: "map_sum id clocks_of (simulate_srv_recovery c7_after ''t3'') = Inr c8_clocks"
  by code_simp

lemma c8_down: "\<not> srv_online c7_after"
  by code_simp

lemma c8_running: "server_reachable c7_after"
proof -
  have "server_reachable c7_server"
    unfolding c7_server_def by (intro server_reachable.failure server_reachable.start)
  then show ?thesis
    using c7_sent by (rule server_reachable.send)
qed

theorem resync_clock_advance_witness:
  "server_reachable c7_after
   \<and> \<not> srv_online c7_after
   \<and> clocks_of c7_after =
       [(''alpha_1'', 0), (''bravo_1'', 1), (''charlie_1'', 0), (''delta_1'', 0), (''echo_1'', 0)]
   \<and> map (\<lambda>(k, node). n_status node) (srv_nodes c7_after) = [P2P_ONLY, P2P_ONLY, P2P_ONLY, P2P_ONLY, P2P_ONLY]
   \<and> map_sum id clocks_of (synchronize_network c7_after) = Inr c8_clocks
   \<and> map_sum id clocks_of (handle_force_sync c7_after ''t3'') = Inr c8_clocks
   \<and> map_sum id clocks_of (server_recovery_finish c7_after ''t3'') = Inr c8_clocks
   \<and> map_sum id clocks_of (simulate_srv_recovery c7_after ''t3'') = Inr c8_clocks
   \<and> (\<exists>s'. synchronize_network c7_after = Inr s' \<and> resynced c7_after s')
   \<and> (\<exists>s'. handle_force_sync c7_after ''t3'' = Inr s' \<and> resynced c7_after s')
   \<and> (\<exists>s'. server_recovery_finish c7_after ''t3'' = Inr s' \<and> resynced c7_after s')
   \<and> (\<exists>s'. simulate_srv_recovery c7_after ''t3'' = Inr s' \<and> resynced c7_after s')"
proof -
  note r = resync_clock_advance [OF c8_running, of "''t3''"]
  from r have "\<exists>s'. synchronize_network c7_after = Inr s' \<and> resynced c7_after s'"
    and "\<exists>s'. handle_force_sync c7_after ''t3'' = Inr s' \<and> resynced c7_after s'"
    and "\<exists>s'. server_recovery_finish c7_after ''t3'' = Inr s' \<and> resynced c7_after s'"
    by blast+
  moreover from r c8_down have "\<exists>s'. simulate_srv_recovery c7_after ''t3'' = Inr s' \<and> resynced c7_after s'"
    by blast
  ultimately show ?thesis
    using c8_running c8_down c8_before c8_statuses c8_synced c8_forced c8_finished c8_recovered
    by blast
qed

section \<open>Sends from an offline node\<close>

























end
